theory Spec2Isabelle
  imports Main
begin

section \<open>Errors and their classification\<close>

text \<open>
  The error type of a query error: the enum \<open>sdp.QueryError_ErrorType\<close>, of which the
  adapters use \<open>OTHER\<close>, \<open>NOTFOUND\<close> and \<open>NOSCOPE\<close>.
\<close>

datatype ErrorType = OTHER | NOTFOUND | NOSCOPE | TIMEOUT

text \<open>The fields of \<open>sdp.QueryError\<close> that the adapters set.\<close>

record QueryError =
  ErrorType :: ErrorType
  ErrorString :: string
  ErrorScope :: string

text \<open>
  A Go \<open>error\<close> value, as far as the adapters look into it: a plain error carrying a
  message, an \<open>awsHttp.ResponseError\<close> carrying the HTTP status code of the response, an
  \<open>sdp.QueryError\<close>, or an error that wraps another one (\<open>fmt.Errorf\<close> with \<open>%w\<close>, or
  the operation errors of the AWS SDK), which \<open>errors.As\<close> looks through.
\<close>

datatype goerror =
    PlainError string
  | ResponseError int string
  | QueryErr QueryError
  | Wrapped string goerror

text \<open>\<open>err.Error()\<close>: the message of an error.\<close>

fun Error :: "goerror \<Rightarrow> string" where
  "Error (PlainError m) = m"
| "Error (ResponseError c m) = m"
| "Error (QueryErr q) = ErrorString q"
| "Error (Wrapped m e) = m"

text \<open>
  \<open>errors.As(err, &responseErr)\<close> with \<open>responseErr\<close> an \<open>*awsHttp.ResponseError\<close>: the
  first response error of the chain, given by its \<open>HTTPStatusCode()\<close>.
\<close>

fun As_ResponseError :: "goerror \<Rightarrow> int option" where
  "As_ResponseError (PlainError m) = None"
| "As_ResponseError (ResponseError c m) = Some c"
| "As_ResponseError (QueryErr q) = None"
| "As_ResponseError (Wrapped m e) = As_ResponseError e"

text \<open>\<open>errors.As(err, &sdpErr)\<close> with \<open>sdpErr\<close> an \<open>*sdp.QueryError\<close>.\<close>

fun As_QueryError :: "goerror \<Rightarrow> QueryError option" where
  "As_QueryError (PlainError m) = None"
| "As_QueryError (ResponseError c m) = None"
| "As_QueryError (QueryErr q) = Some q"
| "As_QueryError (Wrapped m e) = As_QueryError e"

text \<open>
  Modelled from the spec: \<open>sdp.NewQueryError\<close> belongs to the sdp-go library, which is not
  part of the sources. It turns an error into a generic query error (type \<open>OTHER\<close>, the
  error's message); an error that already is a query error is kept as it is, which is how
  the \<open>NOTFOUND\<close> errors that the adapters' own functions build, and the \<open>NOSCOPE\<close>
  errors that \<open>processError\<close> tests for, come through \<open>WrapAWSError\<close>.
\<close>

definition NewQueryError :: "goerror \<Rightarrow> QueryError" where
  "NewQueryError err =
     (case As_QueryError err of
        Some q \<Rightarrow> q
      | None \<Rightarrow> \<lparr>ErrorType = OTHER, ErrorString = Error err, ErrorScope = []\<rparr>)"

text \<open>\<open>slices.Contains\<close>.\<close>

primrec Contains :: "'a list \<Rightarrow> 'a \<Rightarrow> bool" where
  "Contains [] v = False"
| "Contains (x # xs) v = (x = v \<or> Contains xs v)"

text \<open>\<open>WrapAWSError\<close>: wraps an AWS error in the appropriate query error.\<close>

definition WrapAWSError :: "goerror \<Rightarrow> QueryError" where
  "WrapAWSError err =
     (case As_ResponseError err of
        Some code \<Rightarrow>
          if Contains [400, 403, 404] code
          then \<lparr>ErrorType = NOTFOUND, ErrorString = Error err, ErrorScope = []\<rparr>
          else NewQueryError err
      | None \<Rightarrow> NewQueryError err)"

text \<open>\<open>CanRetry\<close>: whether it makes sense to retry the error.\<close>

definition CanRetry :: "QueryError \<Rightarrow> bool" where
  "CanRetry err =
     (case ErrorType err of NOTFOUND \<Rightarrow> False | NOSCOPE \<Rightarrow> False | _ \<Rightarrow> True)"

section \<open>Scopes and ARNs\<close>

text \<open>\<open>FormatScope\<close>: \<open>{accountID}.{region}\<close>, or the account alone without a region.\<close>

definition FormatScope :: "string \<Rightarrow> string \<Rightarrow> string" where
  "FormatScope accountID region =
     (if region = [] then accountID else accountID @ ''.'' @ region)"

text \<open>The embedded \<open>arn.ARN\<close> of the AWS SDK.\<close>

record ARN =
  Partition :: string
  Service :: string
  ARN_Region :: string
  ARN_AccountID :: string
  Resource :: string

text \<open>
  \<open>strings.SplitN(s, sep, n)\<close> for a separator of one byte: at most \<open>n\<close> substrings, the
  last one being the unsplit remainder; no substring at all for \<open>n = 0\<close>.
\<close>

fun SplitN :: "string \<Rightarrow> char \<Rightarrow> nat \<Rightarrow> string list" where
  "SplitN s c 0 = []"
| "SplitN s c (Suc 0) = [s]"
| "SplitN s c (Suc (Suc n)) =
     (if c \<in> set s
      then takeWhile (\<lambda>x. x \<noteq> c) s # SplitN (tl (dropWhile (\<lambda>x. x \<noteq> c) s)) c (Suc n)
      else [s])"

text \<open>
  Modelled from the spec: \<open>arn.Parse\<close> belongs to the AWS SDK, which is not part of the
  sources. It parses the colon-delimited identifier
  \<open>arn:partition:service:region:account-id:resource\<close> into its fields, the resource being
  everything after the fifth colon, and fails with a parse error on malformed input.
\<close>

definition arn_Parse :: "string \<Rightarrow> goerror + ARN" where
  "arn_Parse s =
     (if take 4 s \<noteq> ''arn:'' then Inl (PlainError ''arn: invalid prefix'')
      else
        (case SplitN s (CHR '':'') 6 of
           [_, p, sv, r, a, res] \<Rightarrow>
             Inr \<lparr>Partition = p, Service = sv, ARN_Region = r, ARN_AccountID = a,
                  Resource = res\<rparr>
         | _ \<Rightarrow> Inl (PlainError ''arn: not enough sections'')))"

text \<open>\<open>ParseARN\<close>: the parsed ARN, or the error of \<open>arn.Parse\<close>.\<close>

definition ParseARN :: "string \<Rightarrow> goerror + ARN" where
  "ParseARN arnString =
     (case arn_Parse arnString of Inl err \<Rightarrow> Inl err | Inr a \<Rightarrow> Inr a)"

text \<open>
  \<open>strings.IndexFunc\<close>: the index of the first character that satisfies the predicate, or
  \<open>-1\<close> when there is none. The separators are ASCII, so bytes and runes agree on them.
\<close>

fun IndexFunc :: "string \<Rightarrow> (char \<Rightarrow> bool) \<Rightarrow> int" where
  "IndexFunc [] f = - 1"
| "IndexFunc (x # xs) f =
     (if f x then 0 else (let i = IndexFunc xs f in if i = - 1 then - 1 else i + 1))"

text \<open>The predicate of both calls of \<open>strings.IndexFunc\<close>: \<open>r == '/' || r == ':'\<close>.\<close>

definition isSeparator :: "char \<Rightarrow> bool" where
  "isSeparator r = (r = CHR ''/'' \<or> r = CHR '':'')"

text \<open>\<open>ARN.ResourceID\<close>: \<open>a.Resource[separatorLocation+1:]\<close>.\<close>

definition ResourceID :: "ARN \<Rightarrow> string" where
  "ResourceID a =
     (let separatorLocation = IndexFunc (Resource a) isSeparator
      in drop (nat (separatorLocation + 1)) (Resource a))"

text \<open>\<open>ARN.Type\<close>: the whole resource without a separator, \<open>a.Resource[:separatorLocation]\<close>
  otherwise.\<close>

definition ARN_Type :: "ARN \<Rightarrow> string" where
  "ARN_Type a =
     (let separatorLocation = IndexFunc (Resource a) isSeparator
      in if separatorLocation = - 1 then Resource a
         else take (nat separatorLocation) (Resource a))"

section \<open>Items and the response cache\<close>

text \<open>
  The fields of \<open>sdp.Item\<close> that the skeleton and the tests read: the attribute bag is a
  list of keys and values, the tags are a Go map.
\<close>

record Item =
  Type :: string
  UniqueAttribute :: string
  Attributes :: "(string \<times> string) list"
  Scope :: string
  Tags :: "string \<rightharpoonup> string"

datatype QueryMethod = GET | LIST | SEARCH

text \<open>
  Modelled from the spec: the response cache is the sdpcache library, which is not part of
  the sources. A cache key is the composite of adapter name, query method, scope, item type
  and query string; an entry holds an item or a classified error, and expires when its TTL
  has passed since it was stored. Durations and instants are integers (nanoseconds, as
  \<open>time.Duration\<close>).
\<close>

type_synonym CacheKey = "string \<times> QueryMethod \<times> string \<times> string \<times> string"

record CachedResult =
  IndexKey :: CacheKey
  StoredAt :: int
  TTL :: int
  Payload :: "QueryError + Item"

type_synonym Cache = "CachedResult list"

text \<open>Modelled from the spec: an entry answers a key until its TTL has passed.\<close>

definition live :: "int \<Rightarrow> CacheKey \<Rightarrow> CachedResult \<Rightarrow> bool" where
  "live now ck r = (IndexKey r = ck \<and> now < StoredAt r + TTL r)"

text \<open>Modelled from the spec: the errors and the items of a list of cache entries.\<close>

primrec cachedErrors :: "CachedResult list \<Rightarrow> QueryError list" where
  "cachedErrors [] = []"
| "cachedErrors (r # rs) =
     (case Payload r of Inl e \<Rightarrow> e # cachedErrors rs | Inr i \<Rightarrow> cachedErrors rs)"

primrec cachedItemsOf :: "CachedResult list \<Rightarrow> Item list" where
  "cachedItemsOf [] = []"
| "cachedItemsOf (r # rs) =
     (case Payload r of Inl e \<Rightarrow> cachedItemsOf rs | Inr i \<Rightarrow> i # cachedItemsOf rs)"

text \<open>
  Modelled from the spec: \<open>Lookup(queryKey) -> (hit bool, key, items, error)\<close>. With
  \<open>ignoreCache\<close> the cache is not consulted. Otherwise the entries that answer the key are
  looked at: none is a miss, a stored error is a hit returning that error, and stored items
  are a hit returning them in the order they were stored.
\<close>

definition Lookup ::
  "int \<Rightarrow> Cache \<Rightarrow> string \<Rightarrow> QueryMethod \<Rightarrow> string \<Rightarrow> string \<Rightarrow> string \<Rightarrow> bool
   \<Rightarrow> bool \<times> CacheKey \<times> Item list \<times> QueryError option" where
  "Lookup now c srcName method scope typ query ignoreCache =
     (let ck = (srcName, method, scope, typ, query) in
      if ignoreCache then (False, ck, [], None)
      else
        (let results = filter (live now ck) c in
         case results of
           [] \<Rightarrow> (False, ck, [], None)
         | _ # _ \<Rightarrow>
             (case cachedErrors results of
                e # _ \<Rightarrow> (True, ck, [], Some e)
              | [] \<Rightarrow> (True, ck, cachedItemsOf results, None))))"

text \<open>Modelled from the spec: \<open>StoreItem(item, ttl, key)\<close> at the instant \<open>now\<close>.\<close>

definition StoreItem :: "int \<Rightarrow> Item \<Rightarrow> int \<Rightarrow> CacheKey \<Rightarrow> Cache \<Rightarrow> Cache" where
  "StoreItem now item duration ck c =
     c @ [\<lparr>IndexKey = ck, StoredAt = now, TTL = duration, Payload = Inr item\<rparr>]"

text \<open>Modelled from the spec: \<open>StoreError(err, ttl, key)\<close> at the instant \<open>now\<close>.\<close>

definition StoreError :: "int \<Rightarrow> QueryError \<Rightarrow> int \<Rightarrow> CacheKey \<Rightarrow> Cache \<Rightarrow> Cache" where
  "StoreError now err duration ck c =
     c @ [\<lparr>IndexKey = ck, StoredAt = now, TTL = duration, Payload = Inl err\<rparr>]"

text \<open>
  \<open>HandleTagsError\<close>: no tags for no error, the standardised marker tags otherwise. The
  event added to the tracing span is not modelled.
\<close>

definition HandleTagsError :: "goerror option \<Rightarrow> (string \<rightharpoonup> string)" where
  "HandleTagsError err =
     (case err of
        None \<Rightarrow> Map.empty
      | Some e \<Rightarrow> [''errorGettingTags'' \<mapsto> ''true'', ''error'' \<mapsto> Error e])"

section \<open>The get-list source\<close>

text \<open>
  \<open>GetListSource\<close>: the configuration of a source. The injected functions are fields that
  may be nil. The functions that call the AWS API take the client, which stands here for
  the client together with the state of the service behind it, and return it with their
  result; the item mapper is a pure function. \<open>'a\<close> is the AWS representation of an item.
\<close>

record ('a, 'w) GetListSource =
  ItemType :: string
  AccountID :: string
  Region :: string
  SupportGlobalResources :: bool
  CacheDuration :: int
  DisableList :: bool
  GetFunc :: "('w \<Rightarrow> string \<Rightarrow> string \<Rightarrow> (goerror + 'a) \<times> 'w) option"
  ListFunc :: "('w \<Rightarrow> string \<Rightarrow> (goerror + 'a list) \<times> 'w) option"
  SearchFunc :: "('w \<Rightarrow> string \<Rightarrow> string \<Rightarrow> (goerror + 'a list) \<times> 'w) option"
  ItemMapper :: "(string \<Rightarrow> 'a \<Rightarrow> goerror + Item) option"
  ListTagsFunc :: "('a \<Rightarrow> 'w \<Rightarrow> (goerror + (string \<rightharpoonup> string)) \<times> 'w) option"

text \<open>A call of one of the injected functions that reach the AWS API.\<close>

datatype 'a ProviderCall =
    CallGetFunc string string
  | CallListFunc string
  | CallSearchFunc string string
  | CallListTagsFunc 'a

text \<open>
  What a call of the source can change: its cache (nil until first used), the client with
  the service behind it, and the trace of the calls made to the injected functions.
\<close>

record ('a, 'w) SourceState =
  cache :: "Cache option"
  Client :: 'w
  Calls :: "'a ProviderCall list"

text \<open>The outcome of an operation: its value, its query error, or a panic (a nil function
  called).\<close>

datatype 'r Result = Ok 'r | Err QueryError | Panic

text \<open>
  \<open>cacheDuration\<close>: the configured duration, or the default one when it is unset. The
  constant \<open>DefaultCacheDuration\<close> is declared outside the sources and is a parameter here.
\<close>

definition cacheDuration :: "int \<Rightarrow> ('a, 'w) GetListSource \<Rightarrow> int" where
  "cacheDuration DefaultCacheDuration s =
     (if CacheDuration s = 0 then DefaultCacheDuration else CacheDuration s)"

text \<open>\<open>ensureCache\<close>: creates the (empty) cache when there is none. The mutex is not
  modelled: the operations are sequential here.\<close>

definition ensureCache :: "('a, 'w) SourceState \<Rightarrow> ('a, 'w) SourceState" where
  "ensureCache st = (case cache st of None \<Rightarrow> st\<lparr>cache := Some []\<rparr> | Some c \<Rightarrow> st)"

text \<open>The entries of the cache; a cache that is not created yet has none.\<close>

definition theCache :: "('a, 'w) SourceState \<Rightarrow> Cache" where
  "theCache st = (case cache st of None \<Rightarrow> [] | Some c \<Rightarrow> c)"

text \<open>\<open>Validate\<close>: the message of the error, or \<open>None\<close> for a source set up correctly.\<close>

definition Validate :: "('a, 'w) GetListSource \<Rightarrow> string option" where
  "Validate s =
     (if GetFunc s = None then Some ''GetFunc is nil''
      else if \<not> DisableList s \<and> ListFunc s = None then Some ''ListFunc is nil''
      else if ItemMapper s = None then Some ''ItemMapper is nil''
      else None)"

text \<open>\<open>Name\<close>: the item type followed by \<open>-source\<close>.\<close>

definition Name :: "('a, 'w) GetListSource \<Rightarrow> string" where
  "Name s = ItemType s @ ''-source''"

text \<open>\<open>Scopes\<close>: the scope of account and region, and \<open>aws\<close> for a source of global
  resources.\<close>

definition Scopes :: "('a, 'w) GetListSource \<Rightarrow> string list" where
  "Scopes s =
     [FormatScope (AccountID s) (Region s)] @ (if SupportGlobalResources s then [''aws''] else [])"

text \<open>\<open>hasScope\<close>: whether or not this source has the given scope.\<close>

definition hasScope :: "('a, 'w) GetListSource \<Rightarrow> string \<Rightarrow> bool" where
  "hasScope s scope =
     (if scope = ''aws'' \<and> SupportGlobalResources s then True
      else Contains (Scopes s) scope)"

text \<open>The error of a scope that the source does not serve; \<open>s.Scopes()[0]\<close> always exists.\<close>

definition scopeError :: "('a, 'w) GetListSource \<Rightarrow> string \<Rightarrow> QueryError" where
  "scopeError s scope =
     \<lparr>ErrorType = NOSCOPE,
      ErrorString = ''requested scope '' @ scope @ '' does not match source scope ''
        @ (case Scopes s of x # _ \<Rightarrow> x | [] \<Rightarrow> []),
      ErrorScope = []\<rparr>"

text \<open>
  \<open>processError\<close>: wraps the error and caches it if it is something that won't be fixed by
  retrying. Every call site passes an error that is not nil.
\<close>

definition processError ::
  "int \<Rightarrow> ('a, 'w) GetListSource \<Rightarrow> int \<Rightarrow> goerror \<Rightarrow> CacheKey \<Rightarrow> ('a, 'w) SourceState
   \<Rightarrow> QueryError \<times> ('a, 'w) SourceState" where
  "processError D s now err cacheKey st =
     (let sdpErr = WrapAWSError err in
      if ErrorType sdpErr = NOTFOUND \<or> ErrorType sdpErr = NOSCOPE
      then (sdpErr, st\<lparr>cache := Some (StoreError now sdpErr (cacheDuration D s) cacheKey (theCache st))\<rparr>)
      else (sdpErr, st))"

text \<open>
  The tags of an item in \<open>Get\<close>: those that \<open>ListTagsFunc\<close> returns when it is set, the
  marker tags of \<open>HandleTagsError\<close> when it fails.
\<close>

definition getTags ::
  "('a, 'w) GetListSource \<Rightarrow> 'a \<Rightarrow> Item \<Rightarrow> ('a, 'w) SourceState \<Rightarrow> Item \<times> ('a, 'w) SourceState" where
  "getTags s awsItem item st =
     (case ListTagsFunc s of
        None \<Rightarrow> (item, st)
      | Some listTags \<Rightarrow>
          (case listTags awsItem (Client st) of
             (r, client) \<Rightarrow>
               (let st1 = st\<lparr>Client := client, Calls := Calls st @ [CallListTagsFunc awsItem]\<rparr> in
                case r of
                  Inr tags \<Rightarrow> (item\<lparr>Tags := tags\<rparr>, st1)
                | Inl err \<Rightarrow> (item\<lparr>Tags := HandleTagsError (Some err)\<rparr>, st1))))"

text \<open>
  \<open>Get\<close> at the instant \<open>now\<close>. The item is a pointer in Go, nil for a cache hit without
  items, so the value is an optional item.
\<close>

definition Get ::
  "int \<Rightarrow> ('a, 'w) GetListSource \<Rightarrow> int \<Rightarrow> string \<Rightarrow> string \<Rightarrow> bool \<Rightarrow> ('a, 'w) SourceState
   \<Rightarrow> Item option Result \<times> ('a, 'w) SourceState" where
  "Get D s now scope query ignoreCache st =
     (if \<not> hasScope s scope then (Err (scopeError s scope), st)
      else
        (let st0 = ensureCache st in
         case Lookup now (theCache st0) (Name s) GET scope (ItemType s) query ignoreCache of
           (cacheHit, ck, cachedItems, qErr) \<Rightarrow>
             (case qErr of
                Some e \<Rightarrow> (Err e, st0)
              | None \<Rightarrow>
                  if cacheHit then
                    (case cachedItems of
                       [] \<Rightarrow> (Ok None, st0)
                     | x # _ \<Rightarrow> (Ok (Some x), st0))
                  else
                    (case GetFunc s of
                       None \<Rightarrow> (Panic, st0)
                     | Some getFunc \<Rightarrow>
                         (case getFunc (Client st0) scope query of
                            (r, client) \<Rightarrow>
                              (let st1 = st0\<lparr>Client := client,
                                             Calls := Calls st0 @ [CallGetFunc scope query]\<rparr> in
                               case r of
                                 Inl err \<Rightarrow>
                                   (case processError D s now err ck st1 of
                                      (e, st2) \<Rightarrow> (Err e, st2))
                               | Inr awsItem \<Rightarrow>
                                   (case ItemMapper s of
                                      None \<Rightarrow> (Panic, st1)
                                    | Some itemMapper \<Rightarrow>
                                        (case itemMapper scope awsItem of
                                           Inl err \<Rightarrow>
                                             (case processError D s now err ck st1 of
                                                (e, st2) \<Rightarrow> (Err e, st2))
                                         | Inr item \<Rightarrow>
                                             (case getTags s awsItem item st1 of
                                                (item', st2) \<Rightarrow>
                                                  (Ok (Some item'),
                                                   st2\<lparr>cache := Some (StoreItem now item'
                                                     (CacheDuration s) ck (theCache st2))\<rparr>))))))))))"

text \<open>
  The loop of \<open>List\<close> over the AWS items: an item that the mapper rejects is skipped, an
  error of \<open>ListTagsFunc\<close> is processed and ends the call, every other item is appended and
  stored in the cache.
\<close>

fun ListLoop ::
  "int \<Rightarrow> ('a, 'w) GetListSource \<Rightarrow> int \<Rightarrow> string \<Rightarrow> CacheKey \<Rightarrow> 'a list \<Rightarrow> Item list
   \<Rightarrow> ('a, 'w) SourceState \<Rightarrow> Item list Result \<times> ('a, 'w) SourceState" where
  "ListLoop D s now scope ck [] items st = (Ok items, st)"
| "ListLoop D s now scope ck (awsItem # rest) items st =
     (case ItemMapper s of
        None \<Rightarrow> (Panic, st)
      | Some itemMapper \<Rightarrow>
          (case itemMapper scope awsItem of
             Inl err \<Rightarrow> ListLoop D s now scope ck rest items st
           | Inr item \<Rightarrow>
               (case ListTagsFunc s of
                  None \<Rightarrow>
                    ListLoop D s now scope ck rest (items @ [item])
                      (st\<lparr>cache := Some (StoreItem now item (cacheDuration D s) ck (theCache st))\<rparr>)
                | Some listTags \<Rightarrow>
                    (case listTags awsItem (Client st) of
                       (r, client) \<Rightarrow>
                         (let st1 = st\<lparr>Client := client,
                                       Calls := Calls st @ [CallListTagsFunc awsItem]\<rparr> in
                          case r of
                            Inl err \<Rightarrow>
                              (case processError D s now err ck st1 of
                                 (e, st2) \<Rightarrow> (Err e, st2))
                          | Inr tags \<Rightarrow>
                              ListLoop D s now scope ck rest (items @ [item\<lparr>Tags := tags\<rparr>])
                                (st1\<lparr>cache := Some (StoreItem now (item\<lparr>Tags := tags\<rparr>)
                                   (cacheDuration D s) ck (theCache st1))\<rparr>))))))"

text \<open>\<open>List\<close> at the instant \<open>now\<close>.\<close>

definition List ::
  "int \<Rightarrow> ('a, 'w) GetListSource \<Rightarrow> int \<Rightarrow> string \<Rightarrow> bool \<Rightarrow> ('a, 'w) SourceState
   \<Rightarrow> Item list Result \<times> ('a, 'w) SourceState" where
  "List D s now scope ignoreCache st =
     (if \<not> hasScope s scope then (Err (scopeError s scope), st)
      else if DisableList s then (Ok [], st)
      else
        (let st0 = ensureCache st in
         case Lookup now (theCache st0) (Name s) LIST scope (ItemType s) [] ignoreCache of
           (cacheHit, ck, cachedItems, qErr) \<Rightarrow>
             (case qErr of
                Some e \<Rightarrow> (Err e, st0)
              | None \<Rightarrow>
                  if cacheHit then (Ok cachedItems, st0)
                  else
                    (case ListFunc s of
                       None \<Rightarrow> (Panic, st0)
                     | Some listFunc \<Rightarrow>
                         (case listFunc (Client st0) scope of
                            (r, client) \<Rightarrow>
                              (let st1 = st0\<lparr>Client := client,
                                             Calls := Calls st0 @ [CallListFunc scope]\<rparr> in
                               case r of
                                 Inl err \<Rightarrow> (Err (WrapAWSError err), st1)
                               | Inr awsItems \<Rightarrow> ListLoop D s now scope ck awsItems [] st1))))))"

text \<open>The loop of \<open>SearchCustom\<close>: an item that the mapper rejects is skipped.\<close>

fun SearchLoop ::
  "('a, 'w) GetListSource \<Rightarrow> string \<Rightarrow> 'a list \<Rightarrow> Item list \<Rightarrow> Item list option" where
  "SearchLoop s scope [] items = Some items"
| "SearchLoop s scope (awsItem # rest) items =
     (case ItemMapper s of
        None \<Rightarrow> None
      | Some itemMapper \<Rightarrow>
          (case itemMapper scope awsItem of
             Inl err \<Rightarrow> SearchLoop s scope rest items
           | Inr item \<Rightarrow> SearchLoop s scope rest (items @ [item])))"

text \<open>
  \<open>SearchCustom\<close>: the items of \<open>SearchFunc\<close>, mapped. The values of \<open>Search\<close> are item
  pointers, which \<open>SearchARN\<close> may leave nil, so they are optional items.
\<close>

definition SearchCustom ::
  "('a, 'w) GetListSource \<Rightarrow> string \<Rightarrow> string \<Rightarrow> bool \<Rightarrow> ('a, 'w) SourceState
   \<Rightarrow> Item option list Result \<times> ('a, 'w) SourceState" where
  "SearchCustom s scope query ignoreCache st =
     (case SearchFunc s of
        None \<Rightarrow> (Panic, st)
      | Some searchFunc \<Rightarrow>
          (case searchFunc (Client st) scope query of
             (r, client) \<Rightarrow>
               (let st1 = st\<lparr>Client := client, Calls := Calls st @ [CallSearchFunc scope query]\<rparr> in
                case r of
                  Inl err \<Rightarrow> (Err (WrapAWSError err), st1)
                | Inr awsItems \<Rightarrow>
                    (case SearchLoop s scope awsItems [] of
                       None \<Rightarrow> (Panic, st1)
                     | Some items \<Rightarrow> (Ok (map Some items), st1)))))"

text \<open>\<open>SearchARN\<close>: searches by ARN, through \<open>Get\<close>.\<close>

definition SearchARN ::
  "int \<Rightarrow> ('a, 'w) GetListSource \<Rightarrow> int \<Rightarrow> string \<Rightarrow> string \<Rightarrow> bool \<Rightarrow> ('a, 'w) SourceState
   \<Rightarrow> Item option list Result \<times> ('a, 'w) SourceState" where
  "SearchARN D s now scope query ignoreCache st =
     (case ParseARN query of
        Inl err \<Rightarrow> (Err (WrapAWSError err), st)
      | Inr a \<Rightarrow>
          (let arnScope = FormatScope (ARN_AccountID a) (ARN_Region a) in
           if \<not> hasScope s arnScope
           then (Err \<lparr>ErrorType = NOSCOPE,
                      ErrorString = ''ARN scope '' @ arnScope @ '' does not match request scope ''
                        @ scope,
                      ErrorScope = scope\<rparr>, st)
           else
             (case Get D s now scope (ResourceID a) ignoreCache st of
                (Err e, st1) \<Rightarrow> (Err (WrapAWSError (QueryErr e)), st1)
              | (Panic, st1) \<Rightarrow> (Panic, st1)
              | (Ok item, st1) \<Rightarrow> (Ok [item], st1))))"

text \<open>\<open>Search\<close> at the instant \<open>now\<close>.\<close>

definition Search ::
  "int \<Rightarrow> ('a, 'w) GetListSource \<Rightarrow> int \<Rightarrow> string \<Rightarrow> string \<Rightarrow> bool \<Rightarrow> ('a, 'w) SourceState
   \<Rightarrow> Item option list Result \<times> ('a, 'w) SourceState" where
  "Search D s now scope query ignoreCache st =
     (if \<not> hasScope s scope then (Err (scopeError s scope), st)
      else if SearchFunc s \<noteq> None then SearchCustom s scope query ignoreCache st
      else SearchARN D s now scope query ignoreCache st)"

section \<open>The describe-only source and its pagination\<close>

text \<open>
  A paginator, as the skeleton consumes it: \<open>HasMorePages() bool\<close> and
  \<open>NextPage(ctx) -> (response, error)\<close>, both of which may change the paginator, whose
  state is \<open>Self\<close>.
\<close>

record ('o, 'p) Paginator =
  HasMorePages :: "'p \<Rightarrow> bool \<times> 'p"
  NextPage :: "'p \<Rightarrow> (goerror + 'o) \<times> 'p"
  Self :: 'p





text \<open>
  The input and the output of \<open>DescribeCapacityProviders\<close> of ECS, as far as the
  paginator of the repository reads them: both carry a continuation token. The capacity
  providers of an output are given by their names.
\<close>

record DescribeCapacityProvidersInput =
  Input_CapacityProviders :: "string list"
  Input_Include :: "string list"
  Input_NextToken :: "string option"


text \<open>
  \<open>DescribeCapacityProvidersPaginator\<close>, the paginator that the repository writes itself.
  The client stands for the ECS client together with the service behind it.
\<close>

record 'w DescribeCapacityProvidersPaginator =
  client :: 'w
  params :: DescribeCapacityProvidersInput
  nextToken :: "string option"
  firstPage :: bool





text \<open>
  Modelled from the spec: \<open>DescribeOnlySource\<close> is not part of the sources, only its tests
  are. Its fields are those that the tests set; a single describe call serves \<open>List\<close>,
  optionally through a paginator.
\<close>

record ('i, 'o, 'p) DescribeOnlySource =
  d_ItemType :: string
  d_AccountID :: string
  d_Region :: string
  d_CacheDuration :: int
  MaxResultsPerPage :: int
  InputMapperList :: "(string \<Rightarrow> goerror + 'i) option"
  OutputMapper :: "(string \<Rightarrow> 'i \<Rightarrow> 'o \<Rightarrow> goerror + Item list) option"
  DescribeFunc :: "('i \<Rightarrow> goerror + 'o) option"
  PaginatorBuilder :: "('i \<Rightarrow> ('o, 'p) Paginator) option"

text \<open>Modelled from the spec: a source is paginated when it has a paginator builder.\<close>

definition Paginated :: "('i, 'o, 'p) DescribeOnlySource \<Rightarrow> bool" where
  "Paginated d = (PaginatorBuilder d \<noteq> None)"






section \<open>Notions used to state the properties\<close>

text \<open>The cache entries that \<open>StoreError\<close> and \<open>StoreItem\<close> append.\<close>

definition errorEntry :: "CacheKey \<Rightarrow> int \<Rightarrow> int \<Rightarrow> QueryError \<Rightarrow> CachedResult" where
  "errorEntry ck now d e = \<lparr>IndexKey = ck, StoredAt = now, TTL = d, Payload = Inl e\<rparr>"

definition itemEntry :: "CacheKey \<Rightarrow> int \<Rightarrow> int \<Rightarrow> Item \<Rightarrow> CachedResult" where
  "itemEntry ck now d i = \<lparr>IndexKey = ck, StoredAt = now, TTL = d, Payload = Inr i\<rparr>"

text \<open>
  The successfully mapped items of a list of AWS items, in order: what the spec expects of
  \<open>List\<close> and of a custom search.
\<close>

definition successfullyMapped ::
  "(string \<Rightarrow> 'a \<Rightarrow> goerror + Item) \<Rightarrow> string \<Rightarrow> 'a list \<Rightarrow> Item list" where
  "successfullyMapped itemMapper scope awsItems =
     List.map_filter
       (\<lambda>a. case itemMapper scope a of Inl err \<Rightarrow> None | Inr item \<Rightarrow> Some item) awsItems"

text \<open>
  The successfully mapped items of a list of AWS items, in order, each with the tags that
  the tag function, called on its AWS item with the client as it then is, returns for it;
  without a tag function, the mapped items themselves.
\<close>

fun mappedWithTags ::
  "(string \<Rightarrow> 'a \<Rightarrow> goerror + Item)
   \<Rightarrow> ('a \<Rightarrow> 'w \<Rightarrow> (goerror + (string \<rightharpoonup> string)) \<times> 'w) option
   \<Rightarrow> string \<Rightarrow> 'a list \<Rightarrow> 'w \<Rightarrow> Item list" where
  "mappedWithTags itemMapper listTags scope [] c = []"
| "mappedWithTags itemMapper listTags scope (a # rest) c =
     (case itemMapper scope a of
        Inl err \<Rightarrow> mappedWithTags itemMapper listTags scope rest c
      | Inr item \<Rightarrow>
          (case listTags of
             None \<Rightarrow> item # mappedWithTags itemMapper listTags scope rest c
           | Some f \<Rightarrow>
               (case f a c of
                  (Inr tags, c1) \<Rightarrow>
                    item\<lparr>Tags := tags\<rparr> # mappedWithTags itemMapper listTags scope rest c1
                | (Inl err, c1) \<Rightarrow> item # mappedWithTags itemMapper listTags scope rest c1)))"

text \<open>The tag function of a source, when there is one, never fails.\<close>

definition tagsSucceed :: "('a, 'w) GetListSource \<Rightarrow> bool" where
  "tagsSucceed s =
     (case ListTagsFunc s of
        None \<Rightarrow> True
      | Some listTags \<Rightarrow> (\<forall>a w. \<exists>tags w'. listTags a w = (Inr tags, w')))"

section \<open>Example sources\<close>

text \<open>
  A source in the manner of the caching test: the service holds a generation counter that
  every call increases, the AWS item is the generation it was read at, and the item
  carries it as an attribute (in unary). The items numbered 1000 and more do not map, the
  query \<open>missing\<close> is answered by HTTP 404 and the query \<open>broken\<close> by a network failure.
\<close>

definition exampleItem :: "string \<Rightarrow> nat \<Rightarrow> Item" where
  "exampleItem scope generation =
     \<lparr>Type = ''test-type'', UniqueAttribute = ''name'',
      Attributes = [(''name'', ''test-item''), (''generation'', replicate generation (CHR ''I''))],
      Scope = scope, Tags = Map.empty\<rparr>"

definition exampleGetFunc :: "nat \<Rightarrow> string \<Rightarrow> string \<Rightarrow> (goerror + nat) \<times> nat" where
  "exampleGetFunc generation scope query =
     (if query = ''missing''
      then (Inl (Wrapped ''operation error: not found'' (ResponseError 404 ''not found'')),
            Suc generation)
      else if query = ''broken'' then (Inl (PlainError ''connection reset''), Suc generation)
      else (Inr generation, Suc generation))"

definition exampleListFunc :: "nat \<Rightarrow> string \<Rightarrow> (goerror + nat list) \<times> nat" where
  "exampleListFunc generation scope = (Inr [generation, 1000, Suc generation], Suc generation)"

definition exampleSearchFunc :: "nat \<Rightarrow> string \<Rightarrow> string \<Rightarrow> (goerror + nat list) \<times> nat" where
  "exampleSearchFunc generation scope query =
     (if query = ''missing'' then (Inl (ResponseError 404 ''not found''), Suc generation)
      else (Inr [generation], Suc generation))"

definition notFoundListFunc :: "nat \<Rightarrow> string \<Rightarrow> (goerror + nat list) \<times> nat" where
  "notFoundListFunc generation scope = (Inl (ResponseError 404 ''not found''), Suc generation)"

definition exampleItemMapper :: "string \<Rightarrow> nat \<Rightarrow> goerror + Item" where
  "exampleItemMapper scope awsItem =
     (if 1000 \<le> awsItem then Inl (PlainError ''item cannot be mapped'')
      else Inr (exampleItem scope awsItem))"

definition failingListTagsFunc :: "nat \<Rightarrow> nat \<Rightarrow> (goerror + (string \<rightharpoonup> string)) \<times> nat" where
  "failingListTagsFunc awsItem generation = (Inl (PlainError ''tags unavailable''), generation)"

definition exampleListTagsFunc :: "nat \<Rightarrow> nat \<Rightarrow> (goerror + (string \<rightharpoonup> string)) \<times> nat" where
  "exampleListTagsFunc awsItem generation = (Inr [''env'' \<mapsto> ''test''], generation)"

definition exampleSource :: "(nat, nat) GetListSource" where
  "exampleSource =
     \<lparr>ItemType = ''test-type'', AccountID = ''foo'', Region = ''eu-west-2'',
      SupportGlobalResources = False, CacheDuration = 0, DisableList = False,
      GetFunc = Some exampleGetFunc, ListFunc = Some exampleListFunc, SearchFunc = None,
      ItemMapper = Some exampleItemMapper, ListTagsFunc = None\<rparr>"

definition initialState :: "(nat, nat) SourceState" where
  "initialState = \<lparr>cache = None, Client = 0, Calls = []\<rparr>"





section \<open>Error classification\<close>

text \<open>
  Claim C7. An error returned by the underlying AWS call is no query error of sdp (the AWS
  SDK knows none), which is the hypothesis. For every such error, \<open>WrapAWSError\<close> yields a
  \<open>NOTFOUND\<close> query error exactly when the error is (or wraps) an HTTP response error with
  status code 400, 403 or 404; every other error is wrapped as a generic query error, of
  type \<open>OTHER\<close>, carrying the message of the error.
\<close>

theorem WrapAWSError_class:
  assumes "As_QueryError err = None"
  shows "(ErrorType (WrapAWSError err) = NOTFOUND \<longleftrightarrow>
            (\<exists>code. As_ResponseError err = Some code \<and> code \<in> {400, 403, 404})) \<and>
         (\<not> (\<exists>code. As_ResponseError err = Some code \<and> code \<in> {400, 403, 404}) \<longrightarrow>
            WrapAWSError err = \<lparr>ErrorType = OTHER, ErrorString = Error err, ErrorScope = []\<rparr>)"
  using assms by (auto simp: WrapAWSError_def NewQueryError_def split: option.splits)

text \<open>
  The classification at a wrapped 404 response, which is not found, and at a 500 response,
  which is generic.
\<close>

theorem WrapAWSError_class_witness:
  "As_QueryError (Wrapped ''operation error: not found'' (ResponseError 404 ''not found'')) = None \<and>
   ErrorType (WrapAWSError (Wrapped ''operation error: not found'' (ResponseError 404 ''not found'')))
     = NOTFOUND \<and>
   As_QueryError (ResponseError 500 ''internal error'') = None \<and>
   WrapAWSError (ResponseError 500 ''internal error'')
     = \<lparr>ErrorType = OTHER, ErrorString = ''internal error'', ErrorScope = []\<rparr>"
  using WrapAWSError_class [of "Wrapped ''operation error: not found'' (ResponseError 404 ''not found'')"]
    WrapAWSError_class [of "ResponseError 500 ''internal error''"]
  by simp

section \<open>ARN parsing\<close>

lemma IndexFunc_first:
  "\<forall>x\<in>set pre. \<not> f x \<Longrightarrow> f c \<Longrightarrow> IndexFunc (pre @ c # post) f = int (length pre)"
  by (induction pre) (auto simp: Let_def)

lemma ResourceID_split:
  assumes "Resource a = pre @ c # post" "isSeparator c" "\<forall>x\<in>set pre. \<not> isSeparator x"
  shows "ResourceID a = post" "ARN_Type a = pre"
  using assms IndexFunc_first [of pre isSeparator c post]
  by (simp_all add: ResourceID_def ARN_Type_def nat_add_distrib)

lemma ParseARN_example:
  "ParseARN ''arn:partition:service:region:account-id:resource-type/resource-id:suffix''
  = Inr \<lparr>Partition = ''partition'', Service = ''service'', ARN_Region = ''region'',
      ARN_AccountID = ''account-id'', Resource = ''resource-type/resource-id:suffix''\<rparr>"
  by (simp add: ParseARN_def arn_Parse_def numeral_eq_Suc)

lemma example_split: "ResourceID \<lparr>Partition = ''partition'', Service = ''service'', ARN_Region = ''region'',
      ARN_AccountID = ''account-id'', Resource = ''resource-type/resource-id:suffix''\<rparr> = ''resource-id:suffix''
  \<and> ARN_Type \<lparr>Partition = ''partition'', Service = ''service'', ARN_Region = ''region'',
      ARN_AccountID = ''account-id'', Resource = ''resource-type/resource-id:suffix''\<rparr> = ''resource-type''"
  by (simp add: ResourceID_def ARN_Type_def isSeparator_def)

text \<open>
  Claim C8. For every well-formed ARN whose resource component contains a \<open>/\<close> or \<open>:\<close>
  separator, \<open>ResourceID()\<close> is the substring of the resource after the first such
  separator and \<open>Type()\<close> is the substring before it; in particular parsing
  \<open>arn:partition:service:region:account-id:resource-type/resource-id:suffix\<close> yields the
  resource ID \<open>resource-id:suffix\<close> and the type \<open>resource-type\<close>.
\<close>

theorem ARN_ResourceID_Type:
  "(ParseARN s = Inr a \<and> Resource a = pre @ c # post \<and> isSeparator c \<and>
     (\<forall>x\<in>set pre. \<not> isSeparator x)
     \<longrightarrow> ResourceID a = post \<and> ARN_Type a = pre) \<and>
   (case ParseARN ''arn:partition:service:region:account-id:resource-type/resource-id:suffix'' of
      Inl err \<Rightarrow> False
    | Inr b \<Rightarrow> ResourceID b = ''resource-id:suffix'' \<and> ARN_Type b = ''resource-type'')"
proof (intro conjI impI)
  assume h: "ParseARN s = Inr a \<and> Resource a = pre @ c # post \<and> isSeparator c \<and>
     (\<forall>x\<in>set pre. \<not> isSeparator x)"
  then show "ResourceID a = post" "ARN_Type a = pre"
    using ResourceID_split [of a pre c post] by simp_all
next
  show "case ParseARN ''arn:partition:service:region:account-id:resource-type/resource-id:suffix'' of
      Inl err \<Rightarrow> False
    | Inr b \<Rightarrow> ResourceID b = ''resource-id:suffix'' \<and> ARN_Type b = ''resource-type''"
    unfolding ParseARN_example using example_split by simp
qed

text \<open>The example of the documentation of \<open>ResourceID\<close>, a task definition of ECS.\<close>

theorem ARN_ResourceID_Type_witness:
  "ParseARN ''arn:aws:ecs:eu-west-1:052392120703:task-definition/ecs-template-ecs-demo-app:1''
     = Inr \<lparr>Partition = ''aws'', Service = ''ecs'', ARN_Region = ''eu-west-1'',
            ARN_AccountID = ''052392120703'',
            Resource = ''task-definition/ecs-template-ecs-demo-app:1''\<rparr> \<and>
   ResourceID \<lparr>Partition = ''aws'', Service = ''ecs'', ARN_Region = ''eu-west-1'',
            ARN_AccountID = ''052392120703'',
            Resource = ''task-definition/ecs-template-ecs-demo-app:1''\<rparr>
     = ''ecs-template-ecs-demo-app:1'' \<and>
   ARN_Type \<lparr>Partition = ''aws'', Service = ''ecs'', ARN_Region = ''eu-west-1'',
            ARN_AccountID = ''052392120703'',
            Resource = ''task-definition/ecs-template-ecs-demo-app:1''\<rparr>
     = ''task-definition''"
proof -
  have p: "ParseARN ''arn:aws:ecs:eu-west-1:052392120703:task-definition/ecs-template-ecs-demo-app:1''
     = Inr \<lparr>Partition = ''aws'', Service = ''ecs'', ARN_Region = ''eu-west-1'',
            ARN_AccountID = ''052392120703'',
            Resource = ''task-definition/ecs-template-ecs-demo-app:1''\<rparr>"
    by (simp add: ParseARN_def arn_Parse_def numeral_eq_Suc)
  show ?thesis
    using p ARN_ResourceID_Type [where s = "''arn:aws:ecs:eu-west-1:052392120703:task-definition/ecs-template-ecs-demo-app:1''"
        and a = "\<lparr>Partition = ''aws'', Service = ''ecs'', ARN_Region = ''eu-west-1'',
            ARN_AccountID = ''052392120703'',
            Resource = ''task-definition/ecs-template-ecs-demo-app:1''\<rparr>"
        and pre = "''task-definition''" and c = "CHR ''/''" and post = "''ecs-template-ecs-demo-app:1''",
        THEN conjunct1]
    by (simp add: isSeparator_def)
qed

section \<open>The scope check\<close>

lemma Contains_iff: "Contains xs v \<longleftrightarrow> v \<in> set xs"
  by (induction xs) auto

lemma hasScope_iff: "hasScope s scope \<longleftrightarrow> scope \<in> set (Scopes s)"
  by (auto simp: hasScope_def Contains_iff Scopes_def)

lemma scopeError_type: "ErrorType (scopeError s scope) = NOSCOPE"
  by (simp add: scopeError_def)

text \<open>
  Claim C1. For every get-list source and every scope that is not in the list returned by
  \<open>Scopes()\<close>, \<open>Get\<close> with that scope returns a query error of type \<open>NOSCOPE\<close>, and so
  do \<open>List\<close> and \<open>Search\<close>; the state of the source is returned as it was, so none of the
  injected functions has been called (the trace of calls and the client are unchanged) and
  the cache is untouched.
\<close>

theorem unserved_scope_rejected:
  assumes "scope \<notin> set (Scopes s)"
  shows "Get D s now scope query ignoreCache st = (Err (scopeError s scope), st) \<and>
         List D s now scope ignoreCache st = (Err (scopeError s scope), st) \<and>
         Search D s now scope query ignoreCache st = (Err (scopeError s scope), st) \<and>
         ErrorType (scopeError s scope) = NOSCOPE"
  using assms by (simp add: Get_def List_def Search_def hasScope_iff scopeError_type)

text \<open>The example source serves \<open>foo.eu-west-2\<close> only, and rejects \<open>foo.us-east-1\<close>.\<close>

theorem unserved_scope_rejected_witness:
  "''foo.us-east-1'' \<notin> set (Scopes exampleSource) \<and>
   Get 3600 exampleSource 0 ''foo.us-east-1'' ''test-item'' False initialState
     = (Err (scopeError exampleSource ''foo.us-east-1''), initialState) \<and>
   List 3600 exampleSource 0 ''foo.us-east-1'' False initialState
     = (Err (scopeError exampleSource ''foo.us-east-1''), initialState) \<and>
   Search 3600 exampleSource 0 ''foo.us-east-1'' ''test-item'' False initialState
     = (Err (scopeError exampleSource ''foo.us-east-1''), initialState) \<and>
   ErrorType (scopeError exampleSource ''foo.us-east-1'') = NOSCOPE"
proof -
  have h: "''foo.us-east-1'' \<notin> set (Scopes exampleSource)"
    by (simp add: Scopes_def exampleSource_def FormatScope_def)
  show ?thesis
    using h unserved_scope_rejected [OF h, of 3600 0 "''test-item''" False initialState]
    by simp
qed

section \<open>Disabling List\<close>

lemma hasScope_DisableList: "hasScope (s\<lparr>DisableList := b\<rparr>) scope = hasScope s scope"
  by (simp add: hasScope_def Scopes_def)

lemma processError_DisableList:
  "processError D (s\<lparr>DisableList := b\<rparr>) now err ck st = processError D s now err ck st"
  by (simp add: processError_def cacheDuration_def cong: if_cong)

lemma getTags_DisableList: "getTags (s\<lparr>DisableList := b\<rparr>) a i st = getTags s a i st"
  by (simp add: getTags_def)

lemma Get_DisableList:
  "Get D (s\<lparr>DisableList := b\<rparr>) now scope query ignoreCache st = Get D s now scope query ignoreCache st"
  by (simp add: Get_def hasScope_DisableList processError_DisableList getTags_DisableList
      Name_def scopeError_def Scopes_def
      cong: if_cong option.case_cong sum.case_cong prod.case_cong list.case_cong)

lemma SearchLoop_DisableList:
  "SearchLoop (s\<lparr>DisableList := b\<rparr>) scope as items = SearchLoop s scope as items"
  by (induction as arbitrary: items) (auto split: option.splits sum.splits)

lemma Search_DisableList:
  "Search D (s\<lparr>DisableList := b\<rparr>) now scope query ignoreCache st = Search D s now scope query ignoreCache st"
  by (simp add: Search_def SearchARN_def SearchCustom_def hasScope_DisableList Get_DisableList
      SearchLoop_DisableList scopeError_def Scopes_def
      cong: if_cong option.case_cong sum.case_cong prod.case_cong)

text \<open>
  Claim C10. For every get-list source with \<open>DisableList\<close> set, \<open>List\<close> on a served scope
  returns the empty list and no error, and returns the state as it was: \<open>ListFunc\<close> is not
  called and the cache is neither consulted nor populated. \<open>Validate\<close> gives the same
  verdict without \<open>ListFunc\<close>, so it does not require it. \<open>Get\<close> and \<open>Search\<close> do the same
  with \<open>DisableList\<close> set as without.
\<close>

theorem DisableList_List_empty:
  assumes "DisableList s"
  shows "(hasScope s scope \<longrightarrow> List D s now scope ignoreCache st = (Ok [], st)) \<and>
         Validate (s\<lparr>ListFunc := None\<rparr>) = Validate s \<and>
         Get D (s\<lparr>DisableList := False\<rparr>) now scope query ignoreCache st
           = Get D s now scope query ignoreCache st \<and>
         Search D (s\<lparr>DisableList := False\<rparr>) now scope query ignoreCache st
           = Search D s now scope query ignoreCache st"
  using assms by (simp add: List_def Validate_def Get_DisableList Search_DisableList)

text \<open>The example source with \<open>DisableList\<close> set and no \<open>ListFunc\<close>.\<close>

theorem DisableList_List_empty_witness:
  "DisableList (exampleSource\<lparr>DisableList := True, ListFunc := None\<rparr>) \<and>
   hasScope (exampleSource\<lparr>DisableList := True, ListFunc := None\<rparr>) ''foo.eu-west-2'' \<and>
   List 3600 (exampleSource\<lparr>DisableList := True, ListFunc := None\<rparr>) 0 ''foo.eu-west-2'' False
     initialState = (Ok [], initialState) \<and>
   Validate (exampleSource\<lparr>DisableList := True, ListFunc := None\<rparr>) = None"
proof -
  let ?s = "exampleSource\<lparr>DisableList := True, ListFunc := None\<rparr>"
  have h: "DisableList ?s" by simp
  have sc: "hasScope ?s ''foo.eu-west-2''"
    by (simp add: hasScope_def Scopes_def exampleSource_def FormatScope_def)
  have v: "Validate ?s = None" by (simp add: Validate_def exampleSource_def)
  show ?thesis
    using h sc v DisableList_List_empty [OF h, of "''foo.eu-west-2''" 3600 0 False initialState]
    by simp
qed

section \<open>The cache and the calls of the provider\<close>

lemma live_mono: "now \<le> now' \<Longrightarrow> live now' ck r \<Longrightarrow> live now ck r"
  by (simp add: live_def)

lemma filter_live_mono:
  "now \<le> now' \<Longrightarrow> filter (live now ck) c = [] \<Longrightarrow> filter (live now' ck) c = []"
  by (auto simp: filter_empty_conv dest: live_mono)

lemma Lookup_ignoreCache:
  "Lookup now c n m sc t q True = (False, (n, m, sc, t, q), [], None)"
  by (simp add: Lookup_def)

lemma Lookup_miss:
  "filter (live now (n, m, sc, t, q)) c = [] \<Longrightarrow>
   Lookup now c n m sc t q ign = (False, (n, m, sc, t, q), [], None)"
  by (simp add: Lookup_def Let_def)

lemma Lookup_results:
  "filter (live now (n, m, sc, t, q)) c = r # rs \<Longrightarrow>
   Lookup now c n m sc t q False =
     (case cachedErrors (r # rs) of
        e # _ \<Rightarrow> (True, (n, m, sc, t, q), [], Some e)
      | [] \<Rightarrow> (True, (n, m, sc, t, q), cachedItemsOf (r # rs), None))"
  by (simp add: Lookup_def Let_def cong: list.case_cong)

lemma Lookup_not_hit:
  "Lookup now c n m sc t q ign = (False, ck, items, e) \<Longrightarrow>
   ck = (n, m, sc, t, q) \<and> (ign \<or> filter (live now (n, m, sc, t, q)) c = [])"
  by (auto simp: Lookup_def Let_def split: if_splits list.splits)

lemma theCache_ensureCache [simp]: "theCache (ensureCache st) = theCache st"
  by (simp add: ensureCache_def theCache_def split: option.splits)

lemma cache_ensureCache [simp]: "cache (ensureCache st) = Some (theCache st)"
  by (simp add: ensureCache_def theCache_def split: option.splits)

lemma Calls_ensureCache [simp]: "Calls (ensureCache st) = Calls st"
  by (simp add: ensureCache_def split: option.splits)

lemma Client_ensureCache [simp]: "Client (ensureCache st) = Client st"
  by (simp add: ensureCache_def split: option.splits)

lemma ensureCache_idem: "cache st = Some c \<Longrightarrow> ensureCache st = st"
  by (simp add: ensureCache_def)

lemma theCache_Some: "cache st = Some c \<Longrightarrow> theCache st = c"
  by (simp add: theCache_def)

lemma theCache_update [simp]: "theCache (st\<lparr>cache := Some c\<rparr>) = c"
  by (simp add: theCache_def)

lemma theCache_other [simp]:
  "theCache (st\<lparr>Client := w\<rparr>) = theCache st" "theCache (st\<lparr>Calls := cs\<rparr>) = theCache st"
  by (simp_all add: theCache_def)

lemma processError_fst: "fst (processError D s now err ck st) = WrapAWSError err"
  by (simp add: processError_def Let_def)

lemma processError_Calls: "Calls (snd (processError D s now err ck st)) = Calls st"
  by (simp add: processError_def Let_def)

lemma processError_snd:
  "snd (processError D s now err ck st) =
     (if CanRetry (WrapAWSError err) then st
      else st\<lparr>cache := Some (theCache st @ [\<lparr>IndexKey = ck, StoredAt = now,
             TTL = cacheDuration D s, Payload = Inl (WrapAWSError err)\<rparr>])\<rparr>)"
  by (cases "ErrorType (WrapAWSError err)")
     (simp_all add: processError_def Let_def CanRetry_def StoreError_def)

lemma getTags_Calls: "\<exists>rest. Calls (snd (getTags s a i st)) = Calls st @ rest"
  by (auto simp: getTags_def Let_def split: option.splits prod.splits sum.splits)

lemma getTags_cache: "cache (snd (getTags s a i st)) = cache st"
  by (auto simp: getTags_def Let_def split: option.splits prod.splits sum.splits)

lemma theCache_cong: "cache st = cache st' \<Longrightarrow> theCache st = theCache st'"
  by (simp add: theCache_def)

lemma Get_cached_error:
  assumes "hasScope s scope" "cache st = Some c"
    "filter (live now (Name s, GET, scope, ItemType s, q)) c = [r]" "Payload r = Inl e"
  shows "Get D s now scope q False st = (Err e, st)"
  using assms
  by (simp add: Get_def ensureCache_idem theCache_Some Lookup_results)

lemma Get_cached_item:
  assumes "hasScope s scope" "cache st = Some c"
    "filter (live now (Name s, GET, scope, ItemType s, q)) c = [r]" "Payload r = Inr i"
  shows "Get D s now scope q False st = (Ok (Some i), st)"
  using assms
  by (simp add: Get_def ensureCache_idem theCache_Some Lookup_results)

lemma Get_unchanged_Calls_or_miss:
  assumes "Get D s now scope q ign st = (res, st1)" "Calls st1 \<noteq> Calls st"
  shows "hasScope s scope \<and> (ign \<or> filter (live now (Name s, GET, scope, ItemType s, q)) (theCache st) = [])
     \<and> (\<exists>gf. GetFunc s = Some gf)"
  using assms
  by (auto simp: Get_def Let_def dest!: Lookup_not_hit
      split: if_splits prod.splits option.splits list.splits)

lemma Get_miss_unfold:
  assumes "hasScope s scope"
    "ign \<or> filter (live now (Name s, GET, scope, ItemType s, q)) (theCache st) = []"
    "GetFunc s = Some gf" "gf (Client st) scope q = (r, w)"
  shows "Get D s now scope q ign st =
     (let st1 = (ensureCache st)\<lparr>Client := w, Calls := Calls st @ [CallGetFunc scope q]\<rparr>;
          ck = (Name s, GET, scope, ItemType s, q) in
      case r of
        Inl err \<Rightarrow> (Err (WrapAWSError err), snd (processError D s now err ck st1))
      | Inr a \<Rightarrow>
          (case ItemMapper s of
             None \<Rightarrow> (Panic, st1)
           | Some im \<Rightarrow>
               (case im scope a of
                  Inl err \<Rightarrow> (Err (WrapAWSError err), snd (processError D s now err ck st1))
                | Inr item \<Rightarrow>
                    (case getTags s a item st1 of
                       (item', st2) \<Rightarrow>
                         (Ok (Some item'),
                          st2\<lparr>cache := Some (theCache st @ [itemEntry ck now (CacheDuration s) item'])\<rparr>)))))"
proof -
  have L: "Lookup now (theCache (ensureCache st)) (Name s) GET scope (ItemType s) q ign
      = (False, (Name s, GET, scope, ItemType s, q), [], None)"
    using assms(2) by (auto simp: Lookup_ignoreCache Lookup_miss)
  have P: "\<And>err st'. processError D s now err (Name s, GET, scope, ItemType s, q) st'
      = (WrapAWSError err, snd (processError D s now err (Name s, GET, scope, ItemType s, q) st'))"
    by (metis processError_fst prod.collapse)
  have T: "\<And>a item st' i' st2. getTags s a item st' = (i', st2) \<Longrightarrow> theCache st2 = theCache st'"
    using getTags_cache theCache_cong by (metis snd_conv)
  show ?thesis
    unfolding Get_def Let_def L using assms(1,3,4)
    apply (simp split: sum.splits option.splits prod.splits)
    apply (intro conjI allI impI)
      apply (subst (asm) P, simp)
     apply (subst (asm) P, simp)
    apply (auto simp: StoreItem_def itemEntry_def dest!: T)
    done
qed

lemma filter_live_error_entry:
  assumes "filter (live now ck) c = []" "now \<le> now'" "now' < now + d"
  shows "filter (live now' ck) (c @ [errorEntry ck now d e]) = [errorEntry ck now d e]"
  using filter_live_mono [OF assms(2,1)] assms(3) by (simp add: live_def errorEntry_def)

lemma filter_live_item_entry:
  assumes "filter (live now ck) c = []" "now \<le> now'" "now' < now + d"
  shows "filter (live now' ck) (c @ [itemEntry ck now d i]) = [itemEntry ck now d i]"
  using filter_live_mono [OF assms(2,1)] assms(3) by (simp add: live_def itemEntry_def)

lemma Get_failed_shape:
  assumes "Get D s now scope q False st = (Err e, st1)" "Calls st1 \<noteq> Calls st"
  shows "\<exists>err w. e = WrapAWSError err \<and>
           st1 = snd (processError D s now err (Name s, GET, scope, ItemType s, q)
                  ((ensureCache st)\<lparr>Client := w, Calls := Calls st @ [CallGetFunc scope q]\<rparr>))"
proof -
  from Get_unchanged_Calls_or_miss [OF assms] obtain gf where
    h: "hasScope s scope" "filter (live now (Name s, GET, scope, ItemType s, q)) (theCache st) = []"
       "GetFunc s = Some gf" by auto
  obtain r w where g: "gf (Client st) scope q = (r, w)" by (cases "gf (Client st) scope q")
  show ?thesis
    using assms(1) unfolding Get_miss_unfold [OF h(1) disjI2 [OF h(2)] h(3) g] Let_def
    by (auto split: sum.splits option.splits prod.splits)
qed

lemma Get_ok_shape:
  assumes "Get D s now scope q False st = (Ok r, st1)" "Calls st1 \<noteq> Calls st"
  shows "\<exists>item st2. r = Some item \<and>
           st1 = st2\<lparr>cache := Some (theCache st @
                   [itemEntry (Name s, GET, scope, ItemType s, q) now (CacheDuration s) item])\<rparr>"
proof -
  from Get_unchanged_Calls_or_miss [OF assms] obtain gf where
    h: "hasScope s scope" "filter (live now (Name s, GET, scope, ItemType s, q)) (theCache st) = []"
       "GetFunc s = Some gf" by auto
  obtain r w where g: "gf (Client st) scope q = (r, w)" by (cases "gf (Client st) scope q")
  show ?thesis
    using assms(1) unfolding Get_miss_unfold [OF h(1) disjI2 [OF h(2)] h(3) g] Let_def
    by (auto split: sum.splits option.splits prod.splits)
qed

lemma Get_miss_Calls:
  assumes "hasScope s scope"
    "ign \<or> filter (live now (Name s, GET, scope, ItemType s, q)) (theCache st) = []"
    "GetFunc s = Some gf"
  shows "\<exists>rest. Calls (snd (Get D s now scope q ign st)) = Calls st @ CallGetFunc scope q # rest"
proof -
  obtain r w where g: "gf (Client st) scope q = (r, w)" by (cases "gf (Client st) scope q")
  have T: "\<And>a item st' i' st2. getTags s a item st' = (i', st2) \<Longrightarrow> \<exists>rest. Calls st2 = Calls st' @ rest"
    using getTags_Calls by (metis snd_conv)
  show ?thesis
    unfolding Get_miss_unfold [OF assms g] Let_def
    by (auto simp: processError_Calls split: sum.splits option.splits prod.splits dest!: T)
qed

lemma Get_negative_caching:
  assumes "Get D s now scope q False st = (Err e, st1)" "Calls st1 \<noteq> Calls st" "now \<le> now'"
  shows "if ErrorType e = NOTFOUND \<or> ErrorType e = NOSCOPE
         then now' < now + cacheDuration D s \<longrightarrow> Get D s now' scope q False st1 = (Err e, st1)
         else cache st1 = Some (theCache st) \<and>
              (\<exists>rest. Calls (snd (Get D s now' scope q False st1))
                 = Calls st1 @ CallGetFunc scope q # rest)"
proof -
  let ?ck = "(Name s, GET, scope, ItemType s, q)"
  from Get_unchanged_Calls_or_miss [OF assms(1,2)] obtain gf where
    h: "hasScope s scope" "filter (live now ?ck) (theCache st) = []" "GetFunc s = Some gf" by auto
  from Get_failed_shape [OF assms(1,2)] obtain err w where
    e: "e = WrapAWSError err" and
    st1: "st1 = snd (processError D s now err ?ck
                  ((ensureCache st)\<lparr>Client := w, Calls := Calls st @ [CallGetFunc scope q]\<rparr>))"
    by blast
  show ?thesis
  proof (cases "ErrorType e = NOTFOUND \<or> ErrorType e = NOSCOPE")
    case True
    then have nr: "\<not> CanRetry (WrapAWSError err)" using e by (auto simp: CanRetry_def)
    have c1: "cache st1 = Some (theCache st @ [errorEntry ?ck now (cacheDuration D s) e])"
      unfolding st1 processError_snd using nr e by (simp add: errorEntry_def)
    {
      assume w: "now' < now + cacheDuration D s"
      have "Get D s now' scope q False st1 = (Err e, st1)"
        by (rule Get_cached_error [OF h(1) c1 filter_live_error_entry [OF h(2) assms(3) w]])
           (simp add: errorEntry_def)
    }
    with True show ?thesis by simp
  next
    case False
    then have cr: "CanRetry (WrapAWSError err)"
      using e by (cases "ErrorType e") (auto simp: CanRetry_def)
    have s1: "st1 = (ensureCache st)\<lparr>Client := w, Calls := Calls st @ [CallGetFunc scope q]\<rparr>"
      unfolding st1 processError_snd using cr by simp
    have c1: "cache st1 = Some (theCache st)" unfolding s1 by simp
    have "filter (live now' ?ck) (theCache st1) = []"
      using filter_live_mono [OF assms(3) h(2)] c1 by (simp add: theCache_def)
    from Get_miss_Calls [OF h(1) disjI2 [OF this] h(3)] c1 False show ?thesis by simp
  qed
qed

lemma Get_round_trip:
  assumes "Get D s now scope q False st = (Ok r, st1)" "Calls st1 \<noteq> Calls st"
    "now \<le> now'" "now' < now + CacheDuration s"
  shows "Get D s now' scope q False st1 = (Ok r, st1)"
proof -
  let ?ck = "(Name s, GET, scope, ItemType s, q)"
  from Get_unchanged_Calls_or_miss [OF assms(1,2)] have
    h: "hasScope s scope" "filter (live now ?ck) (theCache st) = []" by auto
  from Get_ok_shape [OF assms(1,2)] obtain item st2 where
    r: "r = Some item" and
    st1: "st1 = st2\<lparr>cache := Some (theCache st @ [itemEntry ?ck now (CacheDuration s) item])\<rparr>"
    by blast
  have c1: "cache st1 = Some (theCache st @ [itemEntry ?ck now (CacheDuration s) item])"
    unfolding st1 by simp
  show ?thesis unfolding r
    by (rule Get_cached_item [OF h(1) c1 filter_live_item_entry [OF h(2) assms(3,4)]])
       (simp add: itemEntry_def)
qed

lemma successfullyMapped_simps:
  "successfullyMapped im scope [] = []"
  "successfullyMapped im scope (a # as) =
     (case im scope a of Inl err \<Rightarrow> successfullyMapped im scope as
      | Inr item \<Rightarrow> item # successfullyMapped im scope as)"
  by (simp_all add: successfullyMapped_def List.map_filter_simps split: sum.splits)

lemma ListLoop_Calls:
  "\<exists>rest. Calls (snd (ListLoop D s now scope ck as items st)) = Calls st @ rest"
proof (induction as arbitrary: items st)
  case Nil
  then show ?case by simp
next
  case (Cons a as)
  show ?case
  proof (cases "ItemMapper s")
    case None
    then show ?thesis by simp
  next
    case (Some im)
    show ?thesis
    proof (cases "im scope a")
      case (Inl err)
      with Some Cons.IH show ?thesis by simp
    next
      case (Inr item)
      show ?thesis
      proof (cases "ListTagsFunc s")
        case None
        with Some Inr Cons.IH [of "items @ [item]"
            "st\<lparr>cache := Some (StoreItem now item (cacheDuration D s) ck (theCache st))\<rparr>"]
        show ?thesis by simp
      next
        case tf: (Some tf)
        obtain r w where t: "tf a (Client st) = (r, w)" by (cases "tf a (Client st)")
        show ?thesis
        proof (cases r)
          case (Inl err)
          with Some Inr tf t show ?thesis
            by (simp add: split_beta processError_Calls Let_def)
        next
          case r: (Inr tags)
          let ?st1 = "st\<lparr>Client := w, Calls := Calls st @ [CallListTagsFunc a]\<rparr>"
          from Cons.IH [of "items @ [item\<lparr>Tags := tags\<rparr>]"
              "?st1\<lparr>cache := Some (StoreItem now (item\<lparr>Tags := tags\<rparr>) (cacheDuration D s) ck (theCache ?st1))\<rparr>"]
          show ?thesis using Some Inr tf t r by auto
        qed
      qed
    qed
  qed
qed

lemma ListLoop_Ok_shape:
  assumes "ListLoop D s now scope ck as items st = (Ok res, st')" "cache st = Some c"
  shows "\<exists>new. res = items @ new \<and>
           cache st' = Some (c @ map (itemEntry ck now (cacheDuration D s)) new)"
  using assms
proof (induction as arbitrary: items st c)
  case Nil
  then show ?case by simp
next
  case (Cons a as)
  show ?case
  proof (cases "ItemMapper s")
    case None
    with Cons.prems show ?thesis by simp
  next
    case (Some im)
    show ?thesis
    proof (cases "im scope a")
      case (Inl err)
      with Some Cons show ?thesis by simp
    next
      case (Inr item)
      show ?thesis
      proof (cases "ListTagsFunc s")
        case None
        let ?st1 = "st\<lparr>cache := Some (StoreItem now item (cacheDuration D s) ck (theCache st))\<rparr>"
        have 1: "ListLoop D s now scope ck as (items @ [item]) ?st1 = (Ok res, st')"
          using Cons.prems(1) Some Inr None by simp
        have 2: "cache ?st1 = Some (c @ [itemEntry ck now (cacheDuration D s) item])"
          using Cons.prems(2) by (simp add: StoreItem_def itemEntry_def theCache_def)
        from Cons.IH [OF 1 2] show ?thesis by auto
      next
        case tf: (Some tf)
        obtain r w where t: "tf a (Client st) = (r, w)" by (cases "tf a (Client st)")
        show ?thesis
        proof (cases r)
          case (Inl err)
          with Some Inr tf t Cons.prems(1) show ?thesis
            by (simp add: split_beta Let_def)
        next
          case r: (Inr tags)
          let ?st0 = "st\<lparr>Client := w, Calls := Calls st @ [CallListTagsFunc a]\<rparr>"
          let ?st1 = "?st0\<lparr>cache := Some (StoreItem now (item\<lparr>Tags := tags\<rparr>) (cacheDuration D s) ck (theCache ?st0))\<rparr>"
          have 1: "ListLoop D s now scope ck as (items @ [item\<lparr>Tags := tags\<rparr>]) ?st1 = (Ok res, st')"
            using Cons.prems(1) Some Inr tf t r by simp
          have 2: "cache ?st1 = Some (c @ [itemEntry ck now (cacheDuration D s) (item\<lparr>Tags := tags\<rparr>)])"
            using Cons.prems(2) by (simp add: StoreItem_def itemEntry_def theCache_def)
          from Cons.IH [OF 1 2] show ?thesis by auto
        qed
      qed
    qed
  qed
qed

lemma mappedWithTags_None:
  "mappedWithTags im None scope as c = successfullyMapped im scope as"
  by (induction as) (simp_all add: successfullyMapped_simps split: sum.splits)

lemma ListLoop_mapped:
  assumes "ItemMapper s = Some im" "tagsSucceed s"
  shows "fst (ListLoop D s now scope ck as items st)
       = Ok (items @ mappedWithTags im (ListTagsFunc s) scope as (Client st))"
proof (induction as arbitrary: items st)
  case Nil
  then show ?case by simp
next
  case (Cons a as)
  show ?case
  proof (cases "im scope a")
    case (Inl err)
    with assms(1) Cons.IH [of items st] show ?thesis by simp
  next
    case (Inr item)
    show ?thesis
    proof (cases "ListTagsFunc s")
      case None
      let ?st1 = "st\<lparr>cache := Some (StoreItem now item (cacheDuration D s) ck (theCache st))\<rparr>"
      from Cons.IH [of "items @ [item]" ?st1] assms(1) Inr None
      show ?thesis by simp
    next
      case tf: (Some tf)
      from assms(2) tf obtain tags w where t: "tf a (Client st) = (Inr tags, w)"
        unfolding tagsSucceed_def by (simp) blast
      let ?st0 = "st\<lparr>Client := w, Calls := Calls st @ [CallListTagsFunc a]\<rparr>"
      let ?st1 = "?st0\<lparr>cache := Some (StoreItem now (item\<lparr>Tags := tags\<rparr>) (cacheDuration D s) ck (theCache ?st0))\<rparr>"
      from Cons.IH [of "items @ [item\<lparr>Tags := tags\<rparr>]" ?st1] assms(1) Inr tf t
      show ?thesis by simp
    qed
  qed
qed

lemma SearchLoop_mapped:
  "ItemMapper s = Some im \<Longrightarrow>
   SearchLoop s scope as items = Some (items @ successfullyMapped im scope as)"
  by (induction as arbitrary: items) (auto simp: successfullyMapped_simps split: sum.splits)

lemma List_unchanged_Calls_or_miss:
  assumes "List D s now scope ign st = (res, st1)" "Calls st1 \<noteq> Calls st"
  shows "hasScope s scope \<and> \<not> DisableList s \<and>
     (ign \<or> filter (live now (Name s, LIST, scope, ItemType s, [])) (theCache st) = [])
     \<and> (\<exists>lf. ListFunc s = Some lf)"
  using assms
  by (auto simp: List_def Let_def dest!: Lookup_not_hit
      split: if_splits prod.splits option.splits list.splits)

lemma List_miss_unfold:
  assumes "hasScope s scope" "\<not> DisableList s"
    "ign \<or> filter (live now (Name s, LIST, scope, ItemType s, [])) (theCache st) = []"
    "ListFunc s = Some lf" "lf (Client st) scope = (r, w)"
  shows "List D s now scope ign st =
     (let st1 = (ensureCache st)\<lparr>Client := w, Calls := Calls st @ [CallListFunc scope]\<rparr> in
      case r of
        Inl err \<Rightarrow> (Err (WrapAWSError err), st1)
      | Inr awsItems \<Rightarrow>
          ListLoop D s now scope (Name s, LIST, scope, ItemType s, []) awsItems [] st1)"
proof -
  have L: "Lookup now (theCache (ensureCache st)) (Name s) LIST scope (ItemType s) [] ign
      = (False, (Name s, LIST, scope, ItemType s, []), [], None)"
    using assms(3) by (auto simp: Lookup_ignoreCache Lookup_miss)
  show ?thesis
    unfolding List_def Let_def L using assms(1,2,4,5) by (simp cong: sum.case_cong)
qed

lemma List_miss_Calls:
  assumes "hasScope s scope" "\<not> DisableList s"
    "ign \<or> filter (live now (Name s, LIST, scope, ItemType s, [])) (theCache st) = []"
    "ListFunc s = Some lf"
  shows "\<exists>rest. Calls (snd (List D s now scope ign st)) = Calls st @ CallListFunc scope # rest"
proof -
  obtain r w where g: "lf (Client st) scope = (r, w)" by (cases "lf (Client st) scope")
  show ?thesis
  proof (cases r)
    case (Inl err)
    then show ?thesis unfolding List_miss_unfold [OF assms g] Let_def by simp
  next
    case (Inr awsItems)
    from ListLoop_Calls [of D s now scope "(Name s, LIST, scope, ItemType s, [])" awsItems "[]"
        "(ensureCache st)\<lparr>Client := w, Calls := Calls st @ [CallListFunc scope]\<rparr>"]
    show ?thesis unfolding List_miss_unfold [OF assms g] Let_def using Inr by auto
  qed
qed

lemma cachedErrors_itemEntries [simp]: "cachedErrors (map (itemEntry ck now d) new) = []"
  by (induction new) (simp_all add: itemEntry_def)

lemma cachedItemsOf_itemEntries [simp]: "cachedItemsOf (map (itemEntry ck now d) new) = new"
  by (induction new) (simp_all add: itemEntry_def)

lemma filter_live_item_entries:
  assumes "filter (live now ck) c = []" "now \<le> now'" "now' < now + d"
  shows "filter (live now' ck) (c @ map (itemEntry ck now d) new) = map (itemEntry ck now d) new"
proof -
  have "filter (live now' ck) (map (itemEntry ck now d) new) = map (itemEntry ck now d) new"
    using assms(3) by (induction new) (simp_all add: live_def itemEntry_def)
  with filter_live_mono [OF assms(2,1)] show ?thesis by simp
qed

lemma List_cached_items:
  assumes "hasScope s scope" "\<not> DisableList s" "cache st = Some c"
    "filter (live now (Name s, LIST, scope, ItemType s, [])) c = map (itemEntry ck' t d) new"
    "new \<noteq> []"
  shows "List D s now scope False st = (Ok new, st)"
proof -
  obtain r rs where rs: "map (itemEntry ck' t d) new = r # rs"
    using assms(5) by (cases new) auto
  have "Lookup now c (Name s) LIST scope (ItemType s) [] False
      = (True, (Name s, LIST, scope, ItemType s, []), new, None)"
    using Lookup_results [of now "Name s" LIST scope "ItemType s" "[]" c r rs]
      assms(4) rs cachedErrors_itemEntries [of ck' t d new] cachedItemsOf_itemEntries [of ck' t d new]
    by simp
  then show ?thesis
    using assms(1,2,3) by (simp add: List_def ensureCache_idem theCache_Some)
qed

lemma List_round_trip:
  assumes "List D s now scope False st = (Ok items, st1)" "Calls st1 \<noteq> Calls st" "items \<noteq> []"
    "now \<le> now'" "now' < now + cacheDuration D s"
  shows "List D s now' scope False st1 = (Ok items, st1)"
proof -
  let ?ck = "(Name s, LIST, scope, ItemType s, [])"
  from List_unchanged_Calls_or_miss [OF assms(1,2)] obtain lf where
    h: "hasScope s scope" "\<not> DisableList s" "filter (live now ?ck) (theCache st) = []"
       "ListFunc s = Some lf" by auto
  obtain r w where g: "lf (Client st) scope = (r, w)" by (cases "lf (Client st) scope")
  let ?st0 = "(ensureCache st)\<lparr>Client := w, Calls := Calls st @ [CallListFunc scope]\<rparr>"
  from assms(1) obtain awsItems where
    loop: "ListLoop D s now scope ?ck awsItems [] ?st0 = (Ok items, st1)"
    unfolding List_miss_unfold [OF h(1,2) disjI2 [OF h(3)] h(4) g] Let_def
    by (cases r) auto
  have "cache ?st0 = Some (theCache st)" by simp
  from ListLoop_Ok_shape [OF loop this]
  have c1: "cache st1 = Some (theCache st @ map (itemEntry ?ck now (cacheDuration D s)) items)"
    by auto
  show ?thesis
    by (rule List_cached_items [OF h(1,2) c1 filter_live_item_entries [OF h(3) assms(4,5)] assms(3)])
qed

lemma SearchCustom_effect:
  assumes "SearchFunc s = Some sf"
  shows "Calls (snd (SearchCustom s scope q ign st)) = Calls st @ [CallSearchFunc scope q] \<and>
         cache (snd (SearchCustom s scope q ign st)) = cache st"
  using assms by (auto simp: SearchCustom_def Let_def split: prod.splits sum.splits option.splits)

lemma Search_custom_effect:
  assumes "hasScope s scope" "SearchFunc s \<noteq> None"
  shows "Calls (snd (Search D s now scope q ign st)) = Calls st @ [CallSearchFunc scope q] \<and>
         cache (snd (Search D s now scope q ign st)) = cache st"
  using assms SearchCustom_effect [of s _ scope q ign st] by (auto simp: Search_def)

lemma SearchARN_round_trip:
  assumes "SearchFunc s = None" "Search D s now scope q False st = (Ok r, st1)"
    "Calls st1 \<noteq> Calls st" "now \<le> now'" "now' < now + CacheDuration s"
  shows "Search D s now' scope q False st1 = (Ok r, st1)"
proof -
  from assms(2,3) have sc: "hasScope s scope"
    by (auto simp: Search_def split: if_splits)
  with assms(1,2) have 1: "SearchARN D s now scope q False st = (Ok r, st1)"
    by (simp add: Search_def)
  then obtain a where a: "ParseARN q = Inr a"
    by (cases "ParseARN q") (auto simp: SearchARN_def)
  from 1 a have as: "hasScope s (FormatScope (ARN_AccountID a) (ARN_Region a))"
    by (auto simp: SearchARN_def Let_def split: if_splits)
  from 1 a as obtain item where
    g: "Get D s now scope (ResourceID a) False st = (Ok item, st1)" and r: "r = [item]"
    by (auto simp: SearchARN_def Let_def split: prod.splits Result.splits)
  from Get_round_trip [OF g assms(3,4,5)]
  show ?thesis using sc assms(1) a as r
    by (simp add: Search_def SearchARN_def)
qed

section \<open>Negative caching\<close>

text \<open>
  Claim C2, as amended. For every get-list source: when a \<open>Get\<close> with \<open>ignoreCache\<close>
  unset called the provider and returned an error, then if the type of the error is
  \<open>NOTFOUND\<close> or \<open>NOSCOPE\<close>, a second identical \<open>Get\<close> at an instant before
  \<open>cacheDuration()\<close> has passed returns the same error and the same state, so it calls no
  provider function; and if the error is of another type, nothing was stored in the cache
  and a second identical \<open>Get\<close> calls \<open>GetFunc\<close> again. \<open>processError\<close> returns the wrapped
  error and stores it, with the TTL \<open>cacheDuration()\<close>, if and only if its type is
  \<open>NOTFOUND\<close> or \<open>NOSCOPE\<close>, which are the types that \<open>CanRetry\<close> refuses. A search
  through a custom \<open>SearchFunc\<close> never changes the cache.
\<close>

theorem negative_caching:
  "(Get D s now scope query False st = (Err e, st1) \<and> Calls st1 \<noteq> Calls st \<and> now \<le> now' \<longrightarrow>
      (if ErrorType e = NOTFOUND \<or> ErrorType e = NOSCOPE
       then now' < now + cacheDuration D s \<longrightarrow>
              Get D s now' scope query False st1 = (Err e, st1)
       else cache st1 = Some (theCache st) \<and>
            (\<exists>rest. Calls (snd (Get D s now' scope query False st1))
               = Calls st1 @ CallGetFunc scope query # rest))) \<and>
   processError D s now err ck st =
     (WrapAWSError err,
      if ErrorType (WrapAWSError err) = NOTFOUND \<or> ErrorType (WrapAWSError err) = NOSCOPE
      then st\<lparr>cache := Some (theCache st @
             [errorEntry ck now (cacheDuration D s) (WrapAWSError err)])\<rparr>
      else st) \<and>
   (CanRetry e \<longleftrightarrow> \<not> (ErrorType e = NOTFOUND \<or> ErrorType e = NOSCOPE)) \<and>
   (hasScope s scope \<and> SearchFunc s \<noteq> None \<longrightarrow>
      cache (snd (Search D s now scope query ignoreCache st)) = cache st)"
proof (intro conjI impI)
  assume "Get D s now scope query False st = (Err e, st1) \<and> Calls st1 \<noteq> Calls st \<and> now \<le> now'"
  then show "if ErrorType e = NOTFOUND \<or> ErrorType e = NOSCOPE
       then now' < now + cacheDuration D s \<longrightarrow>
              Get D s now' scope query False st1 = (Err e, st1)
       else cache st1 = Some (theCache st) \<and>
            (\<exists>rest. Calls (snd (Get D s now' scope query False st1))
               = Calls st1 @ CallGetFunc scope query # rest)"
    using Get_negative_caching [of D s now scope query st e st1 now'] by blast
next
  show "processError D s now err ck st =
     (WrapAWSError err,
      if ErrorType (WrapAWSError err) = NOTFOUND \<or> ErrorType (WrapAWSError err) = NOSCOPE
      then st\<lparr>cache := Some (theCache st @
             [errorEntry ck now (cacheDuration D s) (WrapAWSError err)])\<rparr>
      else st)"
    by (simp add: processError_def Let_def StoreError_def errorEntry_def)
next
  show "CanRetry e \<longleftrightarrow> \<not> (ErrorType e = NOTFOUND \<or> ErrorType e = NOSCOPE)"
    by (cases "ErrorType e") (simp_all add: CanRetry_def)
next
  assume "hasScope s scope \<and> SearchFunc s \<noteq> None"
  then show "cache (snd (Search D s now scope query ignoreCache st)) = cache st"
    using Search_custom_effect [of s scope D now query ignoreCache st] by simp
qed

lemmas eval_defs = Get_def List_def Search_def SearchCustom_def SearchARN_def getTags_def
  hasScope_def Scopes_def FormatScope_def scopeError_def Name_def Lookup_def live_def
  ensureCache_def theCache_def processError_def WrapAWSError_def NewQueryError_def
  cacheDuration_def StoreError_def StoreItem_def HandleTagsError_def Let_def
  exampleSource_def initialState_def exampleGetFunc_def exampleListFunc_def
  exampleSearchFunc_def exampleItemMapper_def failingListTagsFunc_def exampleListTagsFunc_def
  notFoundListFunc_def

lemma example_hasScope: "hasScope exampleSource ''foo.eu-west-2''"
  by (simp add: hasScope_def Scopes_def exampleSource_def FormatScope_def)

lemma example_Get_missing:
  "Get 3600 exampleSource 0 ''foo.eu-west-2'' ''missing'' False initialState =
     (Err \<lparr>ErrorType = NOTFOUND, ErrorString = ''operation error: not found'', ErrorScope = []\<rparr>,
      \<lparr>cache = Some [errorEntry (''test-type-source'', GET, ''foo.eu-west-2'', ''test-type'', ''missing'')
          0 3600 \<lparr>ErrorType = NOTFOUND, ErrorString = ''operation error: not found'', ErrorScope = []\<rparr>],
       Client = 1, Calls = [CallGetFunc ''foo.eu-west-2'' ''missing'']\<rparr>)"
  by (simp add: eval_defs errorEntry_def)

lemma example_Get_broken:
  "Get 3600 exampleSource 0 ''foo.eu-west-2'' ''broken'' False initialState =
     (Err \<lparr>ErrorType = OTHER, ErrorString = ''connection reset'', ErrorScope = []\<rparr>,
      \<lparr>cache = Some [], Client = 1, Calls = [CallGetFunc ''foo.eu-west-2'' ''broken'']\<rparr>)"
  by (simp add: eval_defs)

text \<open>
  The example source at the query \<open>missing\<close> (HTTP 404, cached for the default duration of
  3600) and at the query \<open>broken\<close> (a network failure, not cached).
\<close>

theorem negative_caching_witness:
  "Get 3600 exampleSource 0 ''foo.eu-west-2'' ''missing'' False initialState =
     (Err \<lparr>ErrorType = NOTFOUND, ErrorString = ''operation error: not found'', ErrorScope = []\<rparr>,
      \<lparr>cache = Some [errorEntry (''test-type-source'', GET, ''foo.eu-west-2'', ''test-type'', ''missing'')
          0 3600 \<lparr>ErrorType = NOTFOUND, ErrorString = ''operation error: not found'', ErrorScope = []\<rparr>],
       Client = 1, Calls = [CallGetFunc ''foo.eu-west-2'' ''missing'']\<rparr>) \<and>
   Get 3600 exampleSource 3599 ''foo.eu-west-2'' ''missing'' False
      \<lparr>cache = Some [errorEntry (''test-type-source'', GET, ''foo.eu-west-2'', ''test-type'', ''missing'')
          0 3600 \<lparr>ErrorType = NOTFOUND, ErrorString = ''operation error: not found'', ErrorScope = []\<rparr>],
       Client = 1, Calls = [CallGetFunc ''foo.eu-west-2'' ''missing'']\<rparr> =
     (Err \<lparr>ErrorType = NOTFOUND, ErrorString = ''operation error: not found'', ErrorScope = []\<rparr>,
      \<lparr>cache = Some [errorEntry (''test-type-source'', GET, ''foo.eu-west-2'', ''test-type'', ''missing'')
          0 3600 \<lparr>ErrorType = NOTFOUND, ErrorString = ''operation error: not found'', ErrorScope = []\<rparr>],
       Client = 1, Calls = [CallGetFunc ''foo.eu-west-2'' ''missing'']\<rparr>) \<and>
   Get 3600 exampleSource 0 ''foo.eu-west-2'' ''broken'' False initialState =
     (Err \<lparr>ErrorType = OTHER, ErrorString = ''connection reset'', ErrorScope = []\<rparr>,
      \<lparr>cache = Some [], Client = 1, Calls = [CallGetFunc ''foo.eu-west-2'' ''broken'']\<rparr>) \<and>
   (\<exists>rest. Calls (snd (Get 3600 exampleSource 3599 ''foo.eu-west-2'' ''broken'' False
        \<lparr>cache = Some [], Client = 1, Calls = [CallGetFunc ''foo.eu-west-2'' ''broken'']\<rparr>))
      = [CallGetFunc ''foo.eu-west-2'' ''broken''] @ CallGetFunc ''foo.eu-west-2'' ''broken'' # rest)"
proof -
  have cd: "cacheDuration 3600 exampleSource = 3600"
    by (simp add: cacheDuration_def exampleSource_def)
  have c: "Calls initialState = []" by (simp add: initialState_def)
  note m = negative_caching [where D = 3600 and s = exampleSource and now = 0
      and scope = "''foo.eu-west-2''" and query = "''missing''" and st = initialState
      and now' = 3599, THEN conjunct1, rule_format, OF conjI [OF example_Get_missing]]
  note b = negative_caching [where D = 3600 and s = exampleSource and now = 0
      and scope = "''foo.eu-west-2''" and query = "''broken''" and st = initialState
      and now' = 3599, THEN conjunct1, rule_format, OF conjI [OF example_Get_broken]]
  show ?thesis
    using example_Get_missing example_Get_broken m b by (simp add: cd c)
qed

text \<open>
  Claim C2 as stated fails for the calls that do not go through \<open>processError\<close>: a custom
  search answered by HTTP 404 returns the \<open>NOTFOUND\<close> error and stores nothing, and the
  second identical search calls \<open>SearchFunc\<close> again; likewise \<open>List\<close> with a \<open>ListFunc\<close>
  answered by HTTP 404.
\<close>

theorem negative_caching_counterexample:
  "fst (Search 3600 (exampleSource\<lparr>SearchFunc := Some exampleSearchFunc\<rparr>) 0 ''foo.eu-west-2''
         ''missing'' False initialState)
     = Err \<lparr>ErrorType = NOTFOUND, ErrorString = ''not found'', ErrorScope = []\<rparr> \<and>
   cache (snd (Search 3600 (exampleSource\<lparr>SearchFunc := Some exampleSearchFunc\<rparr>) 0
         ''foo.eu-west-2'' ''missing'' False initialState)) = None \<and>
   Calls (snd (Search 3600 (exampleSource\<lparr>SearchFunc := Some exampleSearchFunc\<rparr>) 0
         ''foo.eu-west-2'' ''missing'' False
         (snd (Search 3600 (exampleSource\<lparr>SearchFunc := Some exampleSearchFunc\<rparr>) 0
            ''foo.eu-west-2'' ''missing'' False initialState))))
     = [CallSearchFunc ''foo.eu-west-2'' ''missing'', CallSearchFunc ''foo.eu-west-2'' ''missing''] \<and>
   fst (List 3600 (exampleSource\<lparr>ListFunc := Some notFoundListFunc\<rparr>) 0 ''foo.eu-west-2'' False
         initialState)
     = Err \<lparr>ErrorType = NOTFOUND, ErrorString = ''not found'', ErrorScope = []\<rparr> \<and>
   cache (snd (List 3600 (exampleSource\<lparr>ListFunc := Some notFoundListFunc\<rparr>) 0 ''foo.eu-west-2''
         False initialState)) = Some [] \<and>
   Calls (snd (List 3600 (exampleSource\<lparr>ListFunc := Some notFoundListFunc\<rparr>) 0 ''foo.eu-west-2''
         False
         (snd (List 3600 (exampleSource\<lparr>ListFunc := Some notFoundListFunc\<rparr>) 0 ''foo.eu-west-2''
            False initialState))))
     = [CallListFunc ''foo.eu-west-2'', CallListFunc ''foo.eu-west-2'']"
  by (simp add: eval_defs)

section \<open>The duration of cache entries\<close>

text \<open>
  Claim C3 at a source whose \<open>CacheDuration\<close> is unset, with a default duration of 3600:
  \<open>Get\<close> stores its item with the TTL 0, the raw \<open>CacheDuration\<close>, where \<open>List\<close> stores
  its items with the default duration; the item stored by \<open>Get\<close> has expired at once, and a
  second identical \<open>Get\<close> calls \<open>GetFunc\<close> again.
\<close>

theorem Get_stores_unset_duration:
  "CacheDuration exampleSource = 0 \<and> cacheDuration 3600 exampleSource = 3600 \<and>
   map TTL (theCache (snd (Get 3600 exampleSource 0 ''foo.eu-west-2'' ''test-item'' False
      initialState))) = [0] \<and>
   map TTL (theCache (snd (List 3600 exampleSource 0 ''foo.eu-west-2'' False initialState)))
     = [3600, 3600] \<and>
   Calls (snd (Get 3600 exampleSource 0 ''foo.eu-west-2'' ''test-item'' False
      (snd (Get 3600 exampleSource 0 ''foo.eu-west-2'' ''test-item'' False initialState))))
     = [CallGetFunc ''foo.eu-west-2'' ''test-item'', CallGetFunc ''foo.eu-west-2'' ''test-item'']"
  by (simp add: eval_defs)

section \<open>Failures of the tag function\<close>

text \<open>
  Claim C4 at a source whose tag function fails: \<open>List\<close> fails with the error of the tag
  function, where \<open>Get\<close> returns the item with the marker tags \<open>errorGettingTags\<close> and
  \<open>error\<close>.
\<close>

theorem List_fails_on_tags_error:
  "fst (List 3600 (exampleSource\<lparr>ListTagsFunc := Some failingListTagsFunc\<rparr>) 0 ''foo.eu-west-2''
         False initialState)
     = Err \<lparr>ErrorType = OTHER, ErrorString = ''tags unavailable'', ErrorScope = []\<rparr> \<and>
   fst (Get 3600 (exampleSource\<lparr>ListTagsFunc := Some failingListTagsFunc\<rparr>) 0 ''foo.eu-west-2''
         ''test-item'' False initialState)
     = Ok (Some ((exampleItem ''foo.eu-west-2'' 0)
         \<lparr>Tags := [''errorGettingTags'' \<mapsto> ''true'', ''error'' \<mapsto> ''tags unavailable'']\<rparr>))"
  by (simp add: eval_defs)

section \<open>Items that do not map\<close>

text \<open>
  When the tag function, if there is one, does not fail, a \<open>List\<close> call that reaches
  \<open>ListFunc\<close> returns exactly the successfully mapped items, in order, each with the tags
  that the tag function returned for it; a custom search returns the successfully mapped
  items of what \<open>SearchFunc\<close> returns. The items that the mapper rejects are dropped.
\<close>

lemma List_returns_mapped_items:
  assumes "hasScope s scope" "\<not> DisableList s"
    "ignoreCache \<or> filter (live now (Name s, LIST, scope, ItemType s, [])) (theCache st) = []"
    "ListFunc s = Some listFunc" "listFunc (Client st) scope = (Inr awsItems, c)"
    "ItemMapper s = Some itemMapper" "tagsSucceed s"
  shows "fst (List D s now scope ignoreCache st)
       = Ok (mappedWithTags itemMapper (ListTagsFunc s) scope awsItems c)"
proof -
  let ?st0 = "(ensureCache st)\<lparr>Client := c, Calls := Calls st @ [CallListFunc scope]\<rparr>"
  have "List D s now scope ignoreCache st
        = ListLoop D s now scope (Name s, LIST, scope, ItemType s, []) awsItems [] ?st0"
    using List_miss_unfold [OF assms(1,2,3,4,5), of D] by (simp add: Let_def)
  then show ?thesis
    using ListLoop_mapped [OF assms(6,7), of D now scope "(Name s, LIST, scope, ItemType s, [])"
        awsItems "[]" ?st0]
    by simp
qed

lemma Search_returns_mapped_items:
  assumes "hasScope s scope" "SearchFunc s = Some searchFunc"
    "searchFunc (Client st) scope query = (Inr awsItems, c)" "ItemMapper s = Some itemMapper"
  shows "fst (Search D s now scope query ignoreCache st)
       = Ok (map Some (successfullyMapped itemMapper scope awsItems))"
  using assms by (simp add: Search_def SearchCustom_def Let_def SearchLoop_mapped)

lemma example_mapped:
  "successfullyMapped exampleItemMapper ''foo.eu-west-2'' [0, 1000, Suc 0]
     = [exampleItem ''foo.eu-west-2'' 0, exampleItem ''foo.eu-west-2'' (Suc 0)]"
  by (simp add: successfullyMapped_def List.map_filter_simps exampleItemMapper_def)

text \<open>
  Claim C5 at a source whose tag function fails: \<open>ListFunc\<close> succeeds with three AWS
  items, of which the second does not map, and \<open>List\<close> returns the error of the tag
  function instead of the two successfully mapped items. The same call without a tag
  function, or with one that succeeds, returns exactly the two mapped items.
\<close>

theorem List_loses_mapped_items_on_tags_error:
  "hasScope (exampleSource\<lparr>ListTagsFunc := Some failingListTagsFunc\<rparr>) ''foo.eu-west-2'' \<and>
   fst (exampleListFunc (Client initialState) ''foo.eu-west-2'') = Inr [0, 1000, Suc 0] \<and>
   successfullyMapped exampleItemMapper ''foo.eu-west-2'' [0, 1000, Suc 0]
     = [exampleItem ''foo.eu-west-2'' 0, exampleItem ''foo.eu-west-2'' (Suc 0)] \<and>
   fst (List 3600 (exampleSource\<lparr>ListTagsFunc := Some failingListTagsFunc\<rparr>) 0 ''foo.eu-west-2''
         True initialState)
     = Err \<lparr>ErrorType = OTHER, ErrorString = ''tags unavailable'', ErrorScope = []\<rparr> \<and>
   fst (List 3600 exampleSource 0 ''foo.eu-west-2'' True initialState)
     = Ok [exampleItem ''foo.eu-west-2'' 0, exampleItem ''foo.eu-west-2'' (Suc 0)] \<and>
   fst (List 3600 (exampleSource\<lparr>ListTagsFunc := Some exampleListTagsFunc\<rparr>) 0 ''foo.eu-west-2''
         True initialState)
     = Ok [(exampleItem ''foo.eu-west-2'' 0)\<lparr>Tags := [''env'' \<mapsto> ''test'']\<rparr>,
           (exampleItem ''foo.eu-west-2'' (Suc 0))\<lparr>Tags := [''env'' \<mapsto> ''test'']\<rparr>]"
  by (simp add: example_mapped) (simp add: eval_defs)

section \<open>The cache round trip\<close>

text \<open>
  Claim C6, as amended. For every get-list source: when a \<open>Get\<close> with \<open>ignoreCache\<close> unset
  called the provider and returned an item, a second identical \<open>Get\<close> at an instant before
  the configured \<open>CacheDuration\<close> has passed returns the same item and the same state, so
  it is served from the cache; likewise for \<open>List\<close> when it returned a list that is not
  empty, before \<open>cacheDuration()\<close> has passed, and for a \<open>Search\<close> by ARN, which goes
  through \<open>Get\<close>. With \<open>ignoreCache\<close> set, \<open>Get\<close> on a served scope always calls
  \<open>GetFunc\<close>, and \<open>List\<close> on a served scope always calls \<open>ListFunc\<close> unless \<open>List\<close> is
  disabled. A search through a custom \<open>SearchFunc\<close> always calls it and never uses the
  cache.
\<close>

theorem cache_round_trip:
  "(Get D s now scope query False st = (Ok r, st1) \<and> Calls st1 \<noteq> Calls st \<and>
    now \<le> now' \<and> now' < now + CacheDuration s
    \<longrightarrow> Get D s now' scope query False st1 = (Ok r, st1)) \<and>
   (List D s now scope False st = (Ok items, st1) \<and> Calls st1 \<noteq> Calls st \<and> items \<noteq> [] \<and>
    now \<le> now' \<and> now' < now + cacheDuration D s
    \<longrightarrow> List D s now' scope False st1 = (Ok items, st1)) \<and>
   (SearchFunc s = None \<and> Search D s now scope query False st = (Ok rs, st1) \<and>
    Calls st1 \<noteq> Calls st \<and> now \<le> now' \<and> now' < now + CacheDuration s
    \<longrightarrow> Search D s now' scope query False st1 = (Ok rs, st1)) \<and>
   (hasScope s scope \<and> GetFunc s \<noteq> None
    \<longrightarrow> (\<exists>rest. Calls (snd (Get D s now scope query True st))
           = Calls st @ CallGetFunc scope query # rest)) \<and>
   (hasScope s scope \<and> \<not> DisableList s \<and> ListFunc s \<noteq> None
    \<longrightarrow> (\<exists>rest. Calls (snd (List D s now scope True st))
           = Calls st @ CallListFunc scope # rest)) \<and>
   (hasScope s scope \<and> SearchFunc s \<noteq> None
    \<longrightarrow> Calls (snd (Search D s now scope query ignoreCache st))
          = Calls st @ [CallSearchFunc scope query] \<and>
        cache (snd (Search D s now scope query ignoreCache st)) = cache st)"
proof (intro conjI impI)
  assume "Get D s now scope query False st = (Ok r, st1) \<and> Calls st1 \<noteq> Calls st \<and>
    now \<le> now' \<and> now' < now + CacheDuration s"
  then show "Get D s now' scope query False st1 = (Ok r, st1)"
    using Get_round_trip [of D s now scope query st r st1 now'] by simp
next
  assume "List D s now scope False st = (Ok items, st1) \<and> Calls st1 \<noteq> Calls st \<and> items \<noteq> [] \<and>
    now \<le> now' \<and> now' < now + cacheDuration D s"
  then show "List D s now' scope False st1 = (Ok items, st1)"
    using List_round_trip [of D s now scope st items st1 now'] by simp
next
  assume "SearchFunc s = None \<and> Search D s now scope query False st = (Ok rs, st1) \<and>
    Calls st1 \<noteq> Calls st \<and> now \<le> now' \<and> now' < now + CacheDuration s"
  then show "Search D s now' scope query False st1 = (Ok rs, st1)"
    using SearchARN_round_trip [of s D now scope query st rs st1 now'] by simp
next
  assume "hasScope s scope \<and> GetFunc s \<noteq> None"
  then show "\<exists>rest. Calls (snd (Get D s now scope query True st))
           = Calls st @ CallGetFunc scope query # rest"
    using Get_miss_Calls [of s scope True now query st _ D] by auto
next
  assume "hasScope s scope \<and> \<not> DisableList s \<and> ListFunc s \<noteq> None"
  then show "\<exists>rest. Calls (snd (List D s now scope True st))
           = Calls st @ CallListFunc scope # rest"
    using List_miss_Calls [of s scope True now st _ D] by auto
next
  assume h: "hasScope s scope \<and> SearchFunc s \<noteq> None"
  then show "Calls (snd (Search D s now scope query ignoreCache st))
          = Calls st @ [CallSearchFunc scope query]"
    using Search_custom_effect [of s scope D now query ignoreCache st] by simp
  from h show "cache (snd (Search D s now scope query ignoreCache st)) = cache st"
    using Search_custom_effect [of s scope D now query ignoreCache st] by simp
qed

lemma cached_Get_first:
  "Get 3600 (exampleSource\<lparr>CacheDuration := 60\<rparr>) 0 ''foo.eu-west-2'' ''test-item'' False
     initialState
   = (Ok (Some (exampleItem ''foo.eu-west-2'' 0)),
      \<lparr>cache = Some [itemEntry (''test-type-source'', GET, ''foo.eu-west-2'', ''test-type'',
          ''test-item'') 0 60 (exampleItem ''foo.eu-west-2'' 0)],
       Client = 1, Calls = [CallGetFunc ''foo.eu-west-2'' ''test-item'']\<rparr>)"
  by (simp add: eval_defs itemEntry_def)

lemma cached_List_first:
  "List 3600 (exampleSource\<lparr>CacheDuration := 60\<rparr>) 0 ''foo.eu-west-2'' False initialState
   = (Ok [exampleItem ''foo.eu-west-2'' 0, exampleItem ''foo.eu-west-2'' (Suc 0)],
      \<lparr>cache = Some
         [itemEntry (''test-type-source'', LIST, ''foo.eu-west-2'', ''test-type'', []) 0 60
            (exampleItem ''foo.eu-west-2'' 0),
          itemEntry (''test-type-source'', LIST, ''foo.eu-west-2'', ''test-type'', []) 0 60
            (exampleItem ''foo.eu-west-2'' (Suc 0))],
       Client = 1, Calls = [CallListFunc ''foo.eu-west-2'']\<rparr>)"
  by (simp add: eval_defs itemEntry_def)

text \<open>
  The example source with a cache duration of 60: \<open>Get\<close> and \<open>List\<close> at the instant 59
  answer as at the instant 0, and \<open>Get\<close> with \<open>ignoreCache\<close> calls \<open>GetFunc\<close> again.
\<close>

theorem cache_round_trip_witness:
  "Get 3600 (exampleSource\<lparr>CacheDuration := 60\<rparr>) 59 ''foo.eu-west-2'' ''test-item'' False
      \<lparr>cache = Some [itemEntry (''test-type-source'', GET, ''foo.eu-west-2'', ''test-type'',
          ''test-item'') 0 60 (exampleItem ''foo.eu-west-2'' 0)],
       Client = 1, Calls = [CallGetFunc ''foo.eu-west-2'' ''test-item'']\<rparr>
   = Get 3600 (exampleSource\<lparr>CacheDuration := 60\<rparr>) 0 ''foo.eu-west-2'' ''test-item'' False
       initialState \<and>
   List 3600 (exampleSource\<lparr>CacheDuration := 60\<rparr>) 59 ''foo.eu-west-2'' False
      \<lparr>cache = Some
         [itemEntry (''test-type-source'', LIST, ''foo.eu-west-2'', ''test-type'', []) 0 60
            (exampleItem ''foo.eu-west-2'' 0),
          itemEntry (''test-type-source'', LIST, ''foo.eu-west-2'', ''test-type'', []) 0 60
            (exampleItem ''foo.eu-west-2'' (Suc 0))],
       Client = 1, Calls = [CallListFunc ''foo.eu-west-2'']\<rparr>
   = List 3600 (exampleSource\<lparr>CacheDuration := 60\<rparr>) 0 ''foo.eu-west-2'' False initialState \<and>
   (\<exists>rest. Calls (snd (Get 3600 (exampleSource\<lparr>CacheDuration := 60\<rparr>) 59 ''foo.eu-west-2''
        ''test-item'' True
        \<lparr>cache = Some [itemEntry (''test-type-source'', GET, ''foo.eu-west-2'', ''test-type'',
            ''test-item'') 0 60 (exampleItem ''foo.eu-west-2'' 0)],
         Client = 1, Calls = [CallGetFunc ''foo.eu-west-2'' ''test-item'']\<rparr>))
      = [CallGetFunc ''foo.eu-west-2'' ''test-item'']
        @ CallGetFunc ''foo.eu-west-2'' ''test-item'' # rest)"
proof -
  let ?s = "exampleSource\<lparr>CacheDuration := 60\<rparr>"
  have c: "Calls initialState = []" by (simp add: initialState_def)
  have d: "CacheDuration ?s = 60" "cacheDuration 3600 ?s = 60"
    by (simp_all add: cacheDuration_def)
  have sc: "hasScope ?s ''foo.eu-west-2'' \<and> GetFunc ?s \<noteq> None"
    by (simp add: hasScope_def Scopes_def FormatScope_def exampleSource_def)
  note g = cache_round_trip [where D = 3600 and s = ?s and now = 0 and now' = 59
      and scope = "''foo.eu-west-2''" and query = "''test-item''" and st = initialState,
      THEN conjunct1, rule_format, OF conjI [OF cached_Get_first]]
  note l = cache_round_trip [where D = 3600 and s = ?s and now = 0 and now' = 59
      and scope = "''foo.eu-west-2''" and st = initialState,
      THEN conjunct2, THEN conjunct1, rule_format, OF conjI [OF cached_List_first]]
  note i = cache_round_trip [where D = 3600 and s = ?s and now = 59
      and scope = "''foo.eu-west-2''" and query = "''test-item''"
      and st = "\<lparr>cache = Some [itemEntry (''test-type-source'', GET, ''foo.eu-west-2'', ''test-type'',
            ''test-item'') 0 60 (exampleItem ''foo.eu-west-2'' 0)],
         Client = 1, Calls = [CallGetFunc ''foo.eu-west-2'' ''test-item'']\<rparr>",
      THEN conjunct2, THEN conjunct2, THEN conjunct2, THEN conjunct1, rule_format, OF sc]
  show ?thesis
    using cached_Get_first cached_List_first g l i by (simp add: c d)
qed

text \<open>
  Claim C6 as stated fails for a custom search: two consecutive identical searches with
  \<open>ignoreCache\<close> unset both call \<open>SearchFunc\<close>, and return items of different generations.
\<close>

theorem cache_round_trip_counterexample:
  "fst (Search 3600 (exampleSource\<lparr>CacheDuration := 60, SearchFunc := Some exampleSearchFunc\<rparr>)
         0 ''foo.eu-west-2'' ''test-item'' False initialState)
     = Ok [Some (exampleItem ''foo.eu-west-2'' 0)] \<and>
   fst (Search 3600 (exampleSource\<lparr>CacheDuration := 60, SearchFunc := Some exampleSearchFunc\<rparr>)
         0 ''foo.eu-west-2'' ''test-item'' False
         (snd (Search 3600
            (exampleSource\<lparr>CacheDuration := 60, SearchFunc := Some exampleSearchFunc\<rparr>)
            0 ''foo.eu-west-2'' ''test-item'' False initialState)))
     = Ok [Some (exampleItem ''foo.eu-west-2'' (Suc 0))] \<and>
   Calls (snd (Search 3600
         (exampleSource\<lparr>CacheDuration := 60, SearchFunc := Some exampleSearchFunc\<rparr>)
         0 ''foo.eu-west-2'' ''test-item'' False
         (snd (Search 3600
            (exampleSource\<lparr>CacheDuration := 60, SearchFunc := Some exampleSearchFunc\<rparr>)
            0 ''foo.eu-west-2'' ''test-item'' False initialState))))
     = [CallSearchFunc ''foo.eu-west-2'' ''test-item'', CallSearchFunc ''foo.eu-west-2'' ''test-item''] \<and>
   Attributes (exampleItem ''foo.eu-west-2'' 0) \<noteq> Attributes (exampleItem ''foo.eu-west-2'' (Suc 0))"
  by (simp add: eval_defs SearchLoop.simps exampleItem_def)

section \<open>Pagination\<close>











end
